theory Spec2Isabelle
  imports Main "HOL-Library.Word"
begin

unbundle bit_operations_syntax

section \<open>Python values\<close>

text \<open>
  \<^verbatim>\<open>TorzelaUtils.py\<close> is Python 3 (its first line asks for \<^verbatim>\<open>python3\<close>). A \<^verbatim>\<open>bytes\<close> object is
  a list of 8-bit values, a \<^verbatim>\<open>str\<close> a list of Unicode code points. A natural number from
  \<open>0x110000\<close> on is no code point; no \<^verbatim>\<open>str\<close> holds one, and the encoder below refuses it.
  Every exception the module can raise is a value of \<open>error\<close>; a function that can raise
  returns \<open>error + 'a\<close>.
\<close>

type_synonym byte = "8 word"
type_synonym bytes = "byte list"
type_synonym codepoint = nat
type_synonym str = "codepoint list"

datatype error = ValueError | TypeError | AttributeError | UnicodeEncodeError | UnicodeDecodeError

text \<open>Statement sequencing: an exception in the first statement skips the rest.\<close>

fun and_then :: "error + 'a \<Rightarrow> ('a \<Rightarrow> error + 'b) \<Rightarrow> error + 'b" where
  "and_then (Inl e) f = Inl e"
| "and_then (Inr x) f = f x"

subsection \<open>UTF-8, the codec of \<^verbatim>\<open>str.encode()\<close> and \<^verbatim>\<open>bytes.decode()\<close>\<close>

text \<open>
  \<open>encode_cp\<close> is the UTF-8 form of one code point. A surrogate (\<open>0xD800\<close> to \<open>0xDFFF\<close>)
  has none: Python raises \<^verbatim>\<open>UnicodeEncodeError\<close>.
\<close>

definition encode_cp :: "codepoint \<Rightarrow> bytes option" where
  "encode_cp c =
     (if c < 0x80 then Some [of_nat c]
      else if c < 0x800 then Some [of_nat (0xC0 + c div 64), of_nat (0x80 + c mod 64)]
      else if 0xD800 \<le> c \<and> c \<le> 0xDFFF then None
      else if c < 0x10000 then
        Some [of_nat (0xE0 + c div 4096), of_nat (0x80 + c div 64 mod 64), of_nat (0x80 + c mod 64)]
      else if c < 0x110000 then
        Some [of_nat (0xF0 + c div 262144), of_nat (0x80 + c div 4096 mod 64),
              of_nat (0x80 + c div 64 mod 64), of_nat (0x80 + c mod 64)]
      else None)"

fun utf8_encode :: "str \<Rightarrow> error + bytes" where
  "utf8_encode [] = Inr []"
| "utf8_encode (c # cs) =
     (case encode_cp c of
        None \<Rightarrow> Inl UnicodeEncodeError
      | Some bs \<Rightarrow> (case utf8_encode cs of Inl e \<Rightarrow> Inl e | Inr r \<Rightarrow> Inr (bs @ r)))"

text \<open>
  The strict decoder accepts the well-formed sequences only, which are the encodings of
  the code points. The first byte of a sequence announces its width (\<open>0x00\<close> to \<open>0x7F\<close>
  one byte, \<open>0xC0\<close> to \<open>0xDF\<close> two, \<open>0xE0\<close> to \<open>0xEF\<close> three, \<open>0xF0\<close> to \<open>0xF7\<close> four,
  any other byte starts none); the payload bits of
  the sequence give a code point; the sequence is well formed when it is that code point's
  encoding. This refuses a stray continuation byte, a truncated sequence, an overlong
  form, an encoded surrogate and a value past \<open>0x10FFFF\<close>, as Python does.
\<close>

definition utf8_width :: "byte \<Rightarrow> nat" where
  "utf8_width b =
     (if unat b < 0x80 then 1
      else if unat b < 0xC0 then 0
      else if unat b < 0xE0 then 2
      else if unat b < 0xF0 then 3
      else if unat b < 0xF8 then 4
      else 0)"

fun payload_bits :: "bytes \<Rightarrow> codepoint" where
  "payload_bits [a] = unat a"
| "payload_bits [a, b] = unat a mod 32 * 64 + unat b mod 64"
| "payload_bits [a, b, c] = unat a mod 16 * 4096 + unat b mod 64 * 64 + unat c mod 64"
| "payload_bits [a, b, c, d] =
     unat a mod 8 * 262144 + unat b mod 64 * 4096 + unat c mod 64 * 64 + unat d mod 64"
| "payload_bits _ = 0"

fun utf8_decode :: "bytes \<Rightarrow> error + str" where
  "utf8_decode [] = Inr []"
| "utf8_decode (b # bs) =
     (if utf8_width b = 0 \<or> length bs < utf8_width b - 1 then Inl UnicodeDecodeError
      else if encode_cp (payload_bits (b # take (utf8_width b - 1) bs))
              \<noteq> Some (b # take (utf8_width b - 1) bs) then Inl UnicodeDecodeError
      else (case utf8_decode (drop (utf8_width b - 1) bs) of
              Inl e \<Rightarrow> Inl e
            | Inr cs \<Rightarrow> Inr (payload_bits (b # take (utf8_width b - 1) bs) # cs)))"

text \<open>
  Method lookup is by the run-time type of the receiver: a \<^verbatim>\<open>str\<close> has \<^verbatim>\<open>encode\<close> and no
  \<^verbatim>\<open>decode\<close>, a \<^verbatim>\<open>bytes\<close> has \<^verbatim>\<open>decode\<close> and no \<^verbatim>\<open>encode\<close>; the missing attribute raises
  \<^verbatim>\<open>AttributeError\<close>.
\<close>

datatype pyobj = PyStr str | PyBytes bytes

fun py_encode :: "pyobj \<Rightarrow> error + bytes" where
  "py_encode (PyStr s) = utf8_encode s"
| "py_encode (PyBytes b) = Inl AttributeError"

fun py_decode :: "pyobj \<Rightarrow> error + str" where
  "py_decode (PyBytes b) = utf8_decode b"
| "py_decode (PyStr s) = Inl AttributeError"

subsection \<open>\<^verbatim>\<open>str.split(sep, maxsplit)\<close>, tuple unpacking, \<^verbatim>\<open>int(str)\<close>\<close>

fun split_max :: "'a \<Rightarrow> nat \<Rightarrow> 'a list \<Rightarrow> 'a list list" where
  "split_max sep 0 s = [s]"
| "split_max sep (Suc n) s =
     (if sep \<in> set s
      then takeWhile (\<lambda>c. c \<noteq> sep) s # split_max sep n (tl (dropWhile (\<lambda>c. c \<noteq> sep) s))
      else [s])"

fun unpack2 :: "'a list \<Rightarrow> error + ('a \<times> 'a)" where
  "unpack2 [a, b] = Inr (a, b)"
| "unpack2 _ = Inl ValueError"

fun unpack3 :: "'a list \<Rightarrow> error + ('a \<times> 'a \<times> 'a)" where
  "unpack3 [a, b, c] = Inr (a, b, c)"
| "unpack3 _ = Inl ValueError"

text \<open>
  \<^verbatim>\<open>int(s)\<close> in base 10, as Python 3.11 reads it. White space around the literal is
  dropped: the six ASCII characters tab, line feed, vertical tab, form feed, carriage
  return and space, and the Unicode spaces beyond ASCII (the separators \<open>U+001C\<close> to
  \<open>U+001F\<close> are not dropped). One sign may lead, the digits may be separated by single
  underscores, and a literal of more than 4300 digits is refused. A digit is a decimal
  digit of any script: \<open>decimal_zeros\<close> lists the digit zero of each script of Unicode 14,
  and the digits one to nine of a script follow its zero.
\<close>

definition int_whitespace :: "codepoint \<Rightarrow> bool" where
  "int_whitespace c = (c \<in> set [9, 10, 11, 12, 13, 32, 133, 160, 5760, 8192, 8193, 8194, 8195,
     8196, 8197, 8198, 8199, 8200, 8201, 8202, 8232, 8233, 8239, 8287, 12288])"

definition decimal_zeros :: "codepoint list" where
  "decimal_zeros = [48, 1632, 1776, 1984, 2406, 2534, 2662, 2790, 2918, 3046, 3174, 3302, 3430,
     3558, 3664, 3792, 3872, 4160, 4240, 6112, 6160, 6470, 6608, 6784, 6800, 6992, 7088, 7232,
     7248, 42528, 43216, 43264, 43472, 43504, 43600, 44016, 65296, 66720, 68912, 69734, 69872,
     69942, 70096, 70384, 70736, 70864, 71248, 71360, 71472, 71904, 72016, 72784, 73040, 73120,
     92768, 92864, 93008, 120782, 120792, 120802, 120812, 120822, 123200, 123632, 125264,
     130032]"

definition digit_value :: "codepoint \<Rightarrow> nat option" where
  "digit_value c = map_option (\<lambda>z. c - z) (find (\<lambda>z. z \<le> c \<and> c \<le> z + 9) decimal_zeros)"

fun digits_value :: "nat \<Rightarrow> str \<Rightarrow> nat option" where
  "digits_value acc [] = Some acc"
| "digits_value acc [c] =
     (case digit_value c of None \<Rightarrow> None | Some v \<Rightarrow> Some (10 * acc + v))"
| "digits_value acc (c # d # cs) =
     (case digit_value c of
        None \<Rightarrow> None
      | Some v \<Rightarrow>
          (if d = 95 then (if cs = [] then None else digits_value (10 * acc + v) cs)
           else digits_value (10 * acc + v) (d # cs)))"

definition py_strip :: "str \<Rightarrow> str" where
  "py_strip s = rev (dropWhile int_whitespace (rev (dropWhile int_whitespace s)))"

definition max_str_digits :: nat where
  "max_str_digits = 4300"

definition unsigned_value :: "str \<Rightarrow> nat option" where
  "unsigned_value s =
     (if s = [] \<or> max_str_digits < length (filter (\<lambda>c. c \<noteq> 95) s) then None
      else digits_value 0 s)"

definition py_int :: "str \<Rightarrow> error + int" where
  "py_int s =
     (case py_strip s of
        [] \<Rightarrow> Inl ValueError
      | c # cs \<Rightarrow>
          (if c = 45 then (case unsigned_value cs of None \<Rightarrow> Inl ValueError | Some n \<Rightarrow> Inr (- int n))
           else if c = 43 then (case unsigned_value cs of None \<Rightarrow> Inl ValueError | Some n \<Rightarrow> Inr (int n))
           else (case unsigned_value (c # cs) of None \<Rightarrow> Inl ValueError | Some n \<Rightarrow> Inr (int n))))"

section \<open>The primitives of the \<^verbatim>\<open>cryptography\<close> package\<close>

subsection \<open>PKCS7 padding to 128-bit blocks\<close>

text \<open>
  \<^verbatim>\<open>padding.PKCS7(128)\<close>: the padder appends \<open>n\<close> bytes of value \<open>n\<close>, with \<open>n\<close> from 1 to 16
  filling the last block (a whole block when the data ends on a block boundary). The
  unpadder raises \<^verbatim>\<open>ValueError\<close> unless the data is a positive number of whole blocks
  whose last byte \<open>n\<close> lies in 1 to 16 and whose last \<open>n\<close> bytes all equal \<open>n\<close>.
\<close>

definition pkcs7_pad :: "bytes \<Rightarrow> bytes" where
  "pkcs7_pad d = d @ replicate (16 - length d mod 16) (of_nat (16 - length d mod 16))"

definition pkcs7_unpad :: "bytes \<Rightarrow> error + bytes" where
  "pkcs7_unpad d =
     (if d = [] \<or> length d mod 16 \<noteq> 0 then Inl ValueError
      else if unat (last d) = 0 \<or> 16 < unat (last d) then Inl ValueError
      else if drop (length d - unat (last d)) d \<noteq> replicate (unat (last d)) (last d)
        then Inl ValueError
      else Inr (take (length d - unat (last d)) d))"

subsection \<open>AES in CBC mode\<close>

text \<open>
  The AES permutation of one 16-byte block under a key, the key derivation function and
  the PEM reader and writer are code of the package, not of this module: they are the
  fields of a \<open>backend\<close>, and every function of the module takes the backend it runs on.
  The chaining of the blocks, the lengths the package checks and the padding are written
  out.
\<close>

record DHParameters =
  dh_p :: nat
  dh_g :: nat

record DHPrivateKey =
  private_parameters :: DHParameters
  private_x :: nat

record DHPublicKey =
  public_parameters :: DHParameters
  public_y :: nat

record backend =
  aes_encrypt_block :: "bytes \<Rightarrow> bytes \<Rightarrow> bytes"
  aes_decrypt_block :: "bytes \<Rightarrow> bytes \<Rightarrow> bytes"
  hkdf_sha256 :: "nat \<Rightarrow> bytes option \<Rightarrow> bytes \<Rightarrow> bytes \<Rightarrow> bytes"
  public_bytes_pem :: "DHPublicKey \<Rightarrow> bytes"
  load_pem_public_key :: "bytes \<Rightarrow> error + DHPublicKey"

definition xor_bytes :: "bytes \<Rightarrow> bytes \<Rightarrow> bytes" where
  "xor_bytes a b = map2 (XOR) a b"

fun cbc_encrypt :: "(bytes \<Rightarrow> bytes) \<Rightarrow> bytes \<Rightarrow> bytes \<Rightarrow> bytes" where
  "cbc_encrypt E prev d =
     (if length d < 16 then []
      else E (xor_bytes (take 16 d) prev)
           @ cbc_encrypt E (E (xor_bytes (take 16 d) prev)) (drop 16 d))"

fun cbc_decrypt :: "(bytes \<Rightarrow> bytes) \<Rightarrow> bytes \<Rightarrow> bytes \<Rightarrow> bytes" where
  "cbc_decrypt D prev d =
     (if length d < 16 then []
      else xor_bytes (D (take 16 d)) prev @ cbc_decrypt D (take 16 d) (drop 16 d))"

declare cbc_encrypt.simps [simp del] cbc_decrypt.simps [simp del]

text \<open>
  What AES gives for every key: it maps 16-byte blocks to 16-byte blocks, and decryption
  undoes encryption.
\<close>

definition inverse_on_blocks :: "(bytes \<Rightarrow> bytes) \<Rightarrow> (bytes \<Rightarrow> bytes) \<Rightarrow> bool" where
  "inverse_on_blocks E D \<longleftrightarrow> (\<forall>b. length b = 16 \<longrightarrow> length (E b) = 16 \<and> D (E b) = b)"

record cipher =
  cipher_key :: bytes
  cipher_iv :: bytes

text \<open>\<^verbatim>\<open>encryptor.update(d) + encryptor.finalize()\<close>: \<^verbatim>\<open>finalize\<close> raises on a partial block.\<close>

definition encryptor :: "backend \<Rightarrow> cipher \<Rightarrow> bytes \<Rightarrow> error + bytes" where
  "encryptor B c d =
     (if length d mod 16 \<noteq> 0 then Inl ValueError
      else Inr (cbc_encrypt (aes_encrypt_block B (cipher_key c)) (cipher_iv c) d))"

definition decryptor :: "backend \<Rightarrow> cipher \<Rightarrow> bytes \<Rightarrow> error + bytes" where
  "decryptor B c d =
     (if length d mod 16 \<noteq> 0 then Inl ValueError
      else Inr (cbc_decrypt (aes_decrypt_block B (cipher_key c)) (cipher_iv c) d))"

subsection \<open>Diffie-Hellman\<close>

text \<open>
  Modelled from the spec: the package's key generation and \<^verbatim>\<open>exchange\<close>. A key pair is a
  private exponent \<open>x\<close> and the public element \<open>g ^ x mod p\<close>; the exchange raises when the
  peer's key is not of the private key's domain parameters, and otherwise yields
  \<open>y ^ x mod p\<close> as big-endian bytes of the modulus' length. The exponent the package
  samples is an argument of \<open>generate_private_key\<close>.
\<close>

fun byte_length :: "nat \<Rightarrow> nat" where
  "byte_length n = (if n = 0 then 0 else Suc (byte_length (n div 256)))"

fun to_bytes_be :: "nat \<Rightarrow> nat \<Rightarrow> bytes" where
  "to_bytes_be 0 v = []"
| "to_bytes_be (Suc n) v = to_bytes_be n (v div 256) @ [of_nat (v mod 256)]"

declare byte_length.simps [simp del]

definition generate_private_key :: "DHParameters \<Rightarrow> nat \<Rightarrow> DHPrivateKey" where
  "generate_private_key params x = \<lparr>private_parameters = params, private_x = x\<rparr>"

definition public_key_of :: "DHPrivateKey \<Rightarrow> DHPublicKey" where
  "public_key_of k =
     \<lparr>public_parameters = private_parameters k,
      public_y = dh_g (private_parameters k) ^ private_x k mod dh_p (private_parameters k)\<rparr>"

definition exchange :: "DHPrivateKey \<Rightarrow> DHPublicKey \<Rightarrow> error + bytes" where
  "exchange k peer =
     (if public_parameters peer \<noteq> private_parameters k then Inl ValueError
      else Inr (to_bytes_be (byte_length (dh_p (private_parameters k)))
                  (public_y peer ^ private_x k mod dh_p (private_parameters k))))"

subsection \<open>The PEM text of a public key\<close>

text \<open>
  Modelled from the spec: the package's writer and reader of the PEM text of a public key
  in \<^verbatim>\<open>SubjectPublicKeyInfo\<close> format. For a Diffie-Hellman key the writer takes the DER
  encoding of

  \<^verbatim>\<open>SEQUENCE { SEQUENCE { OID dhKeyAgreement, SEQUENCE { INTEGER p, INTEGER g } }, BIT STRING { INTEGER y } }\<close>

  and writes its Base64 form in lines of 64 characters between the lines
  \<^verbatim>\<open>-----BEGIN PUBLIC KEY-----\<close> and \<^verbatim>\<open>-----END PUBLIC KEY-----\<close>. DER writes a length below 128 in
  one byte and a longer one as the count of its bytes plus 128 followed by those bytes, and
  an integer in the fewest big-endian bytes that keep the sign bit clear. The reader
  accepts what the writer writes and raises \<^verbatim>\<open>ValueError\<close> on any other input.
\<close>

definition from_bytes_be :: "bytes \<Rightarrow> nat" where
  "from_bytes_be bs = foldl (\<lambda>acc b. 256 * acc + unat b) 0 bs"

definition der_length :: "nat \<Rightarrow> bytes" where
  "der_length n =
     (if n < 128 then [of_nat n]
      else of_nat (128 + byte_length n) # to_bytes_be (byte_length n) n)"

definition der_tlv :: "byte \<Rightarrow> bytes \<Rightarrow> bytes" where
  "der_tlv tag content = tag # der_length (length content) @ content"

definition integer_content :: "nat \<Rightarrow> bytes" where
  "integer_content n =
     (case to_bytes_be (byte_length n) n of
        [] \<Rightarrow> [0]
      | b # bs \<Rightarrow> if 128 \<le> unat b then 0 # b # bs else b # bs)"

definition der_integer :: "nat \<Rightarrow> bytes" where
  "der_integer n = der_tlv 0x02 (integer_content n)"

definition dh_oid :: bytes where
  "dh_oid = [0x06, 0x09, 0x2A, 0x86, 0x48, 0x86, 0xF7, 0x0D, 0x01, 0x03, 0x01]"

definition subject_public_key_info :: "DHPublicKey \<Rightarrow> bytes" where
  "subject_public_key_info k =
     der_tlv 0x30
       (der_tlv 0x30
          (dh_oid @ der_tlv 0x30 (der_integer (dh_p (public_parameters k))
                                  @ der_integer (dh_g (public_parameters k))))
        @ der_tlv 0x03 (0 # der_integer (public_y k)))"

definition der_read :: "byte \<Rightarrow> bytes \<Rightarrow> (bytes \<times> bytes) option" where
  "der_read tag bs =
     (case bs of
        t # l # after \<Rightarrow>
          (let k = unat l - 128;
               n = (if unat l < 128 then unat l else from_bytes_be (take k after))
           in if t = tag \<and> der_length n = l # take k after \<and> n \<le> length (drop k after)
              then Some (take n (drop k after), drop n (drop k after))
              else None)
      | _ \<Rightarrow> None)"

definition read_integer :: "bytes \<Rightarrow> (nat \<times> bytes) option" where
  "read_integer bs =
     (case der_read 0x02 bs of
        None \<Rightarrow> None
      | Some (c, rest) \<Rightarrow>
          if integer_content (from_bytes_be c) = c then Some (from_bytes_be c, rest) else None)"

definition whole :: "('a \<times> bytes) option \<Rightarrow> 'a option" where
  "whole r = (case r of Some (a, []) \<Rightarrow> Some a | _ \<Rightarrow> None)"

definition read_subject_public_key_info :: "bytes \<Rightarrow> DHPublicKey option" where
  "read_subject_public_key_info bs =
     Option.bind (whole (der_read 0x30 bs)) (\<lambda>info.
     Option.bind (der_read 0x30 info) (\<lambda>(algorithm, key).
     Option.bind (whole (der_read 0x30 (drop (length dh_oid) algorithm))) (\<lambda>params.
     Option.bind (read_integer params) (\<lambda>(p, after).
     Option.bind (whole (read_integer after)) (\<lambda>g.
     Option.bind (whole (der_read 0x03 key)) (\<lambda>bits.
     Option.bind (whole (read_integer (drop 1 bits))) (\<lambda>y.
     if take (length dh_oid) algorithm = dh_oid \<and> take 1 bits = [0]
     then Some \<lparr>public_parameters = \<lparr>dh_p = p, dh_g = g\<rparr>, public_y = y\<rparr>
     else None)))))))"

definition b64_char :: "nat \<Rightarrow> byte" where
  "b64_char i =
     (if i < 26 then of_nat (65 + i)
      else if i < 52 then of_nat (97 + (i - 26))
      else if i < 62 then of_nat (48 + (i - 52))
      else if i = 62 then 43 else 47)"

definition b64_index :: "byte \<Rightarrow> nat option" where
  "b64_index b =
     (if 65 \<le> unat b \<and> unat b \<le> 90 then Some (unat b - 65)
      else if 97 \<le> unat b \<and> unat b \<le> 122 then Some (unat b - 97 + 26)
      else if 48 \<le> unat b \<and> unat b \<le> 57 then Some (unat b - 48 + 52)
      else if unat b = 43 then Some 62
      else if unat b = 47 then Some 63
      else None)"

fun b64_encode :: "bytes \<Rightarrow> bytes" where
  "b64_encode (a # b # c # rest) =
     [b64_char (unat a div 4), b64_char (unat a mod 4 * 16 + unat b div 16),
      b64_char (unat b mod 16 * 4 + unat c div 64), b64_char (unat c mod 64)] @ b64_encode rest"
| "b64_encode [a, b] =
     [b64_char (unat a div 4), b64_char (unat a mod 4 * 16 + unat b div 16),
      b64_char (unat b mod 16 * 4), 61]"
| "b64_encode [a] = [b64_char (unat a div 4), b64_char (unat a mod 4 * 16), 61, 61]"
| "b64_encode [] = []"

fun b64_decode :: "bytes \<Rightarrow> bytes option" where
  "b64_decode [] = Some []"
| "b64_decode (w # x # y # z # rest) =
     (case (b64_index w, b64_index x) of
        (Some i, Some j) \<Rightarrow>
          if rest = [] \<and> y = 61 \<and> z = 61 then
            (if j mod 16 = 0 then Some [of_nat (i * 4 + j div 16)] else None)
          else
            (case b64_index y of
               None \<Rightarrow> None
             | Some k \<Rightarrow>
                 if rest = [] \<and> z = 61 then
                   (if k mod 4 = 0
                    then Some [of_nat (i * 4 + j div 16), of_nat (j mod 16 * 16 + k div 4)]
                    else None)
                 else
                   (case b64_index z of
                      None \<Rightarrow> None
                    | Some l \<Rightarrow>
                        (case b64_decode rest of
                           None \<Rightarrow> None
                         | Some r \<Rightarrow>
                             Some (of_nat (i * 4 + j div 16) # of_nat (j mod 16 * 16 + k div 4)
                                   # of_nat (k mod 4 * 64 + l) # r))))
      | _ \<Rightarrow> None)"
| "b64_decode _ = None"

fun wrap64 :: "bytes \<Rightarrow> bytes" where
  "wrap64 s = (if s = [] then [] else take 64 s @ [10] @ wrap64 (drop 64 s))"

declare wrap64.simps [simp del]

definition pem_header :: bytes where
  "pem_header = [45, 45, 45, 45, 45, 66, 69, 71, 73, 78, 32, 80, 85, 66, 76, 73, 67, 32, 75, 69,
     89, 45, 45, 45, 45, 45, 10]"

definition pem_footer :: bytes where
  "pem_footer = [45, 45, 45, 45, 45, 69, 78, 68, 32, 80, 85, 66, 76, 73, 67, 32, 75, 69, 89, 45,
     45, 45, 45, 45, 10]"

definition spki_pem :: "DHPublicKey \<Rightarrow> bytes" where
  "spki_pem k = pem_header @ wrap64 (b64_encode (subject_public_key_info k)) @ pem_footer"

definition strip_prefix :: "bytes \<Rightarrow> bytes \<Rightarrow> bytes option" where
  "strip_prefix p bs = (if take (length p) bs = p then Some (drop (length p) bs) else None)"

definition strip_suffix :: "bytes \<Rightarrow> bytes \<Rightarrow> bytes option" where
  "strip_suffix s bs = map_option rev (strip_prefix (rev s) (rev bs))"

definition load_spki_pem :: "bytes \<Rightarrow> error + DHPublicKey" where
  "load_spki_pem bs =
     (case Option.bind (strip_prefix pem_header bs) (\<lambda>r.
           Option.bind (strip_suffix pem_footer r) (\<lambda>body.
           Option.bind (b64_decode (filter (\<lambda>b. b \<noteq> 10) body)) read_subject_public_key_info)) of
        None \<Rightarrow> Inl ValueError
      | Some k \<Rightarrow> Inr k)"

section \<open>The module \<^verbatim>\<open>TorzelaUtils.py\<close>\<close>

text \<open>\<^verbatim>\<open>createRandomMessage\<close> draws from this alphabet: the ASCII letters and \<^verbatim>\<open>.,:;-+*/?!()[]{}\<close>.\<close>

definition chars :: str where
  "chars = [97..<123] @ [65..<91] @ [46, 44, 58, 59, 45, 43, 42, 47, 63, 33, 40, 41, 91, 93, 123, 125]"

definition createRandomMessage :: "nat list \<Rightarrow> str" where
  "createRandomMessage choices = map (\<lambda>i. chars ! (i mod length chars)) choices"

text \<open>
  \<^verbatim>\<open>createKeyGenerator\<close> asks the package for fresh 512-bit parameters with generator 2;
  the prime it comes back with is the argument.
\<close>

definition createKeyGenerator :: "nat \<Rightarrow> DHParameters" where
  "createKeyGenerator p = \<lparr>dh_p = p, dh_g = 2\<rparr>"

definition iv :: bytes where
  "iv = [0x2B, 0xED, 0x36, 0xDD, 0xF0, 0xB1, 0x17, 0xA2, 0xA7, 0x12, 0x13, 0xD3, 0xD0, 0xF9, 0x14, 0xAC]"

text \<open>
  \<^verbatim>\<open>Cipher(algorithms.AES(sharedSecret), modes.CBC(iv))\<close>: \<^verbatim>\<open>AES\<close> raises \<^verbatim>\<open>ValueError\<close> on a
  key that is not 128, 192 or 256 bits long.
\<close>

definition createCipher :: "bytes \<Rightarrow> error + cipher" where
  "createCipher sharedSecret =
     (if length sharedSecret = 16 \<or> length sharedSecret = 24 \<or> length sharedSecret = 32
      then Inr \<lparr>cipher_key = sharedSecret, cipher_iv = iv\<rparr>
      else Inl ValueError)"

definition generateKeys :: "DHParameters \<Rightarrow> nat \<Rightarrow> DHPrivateKey \<times> DHPublicKey" where
  "generateKeys keyGenerator x =
     (generate_private_key keyGenerator x, public_key_of (generate_private_key keyGenerator x))"

definition handshake_data :: bytes where
  "handshake_data = [104, 97, 110, 100, 115, 104, 97, 107, 101, 32, 100, 97, 116, 97]"

definition computeSharedSecret :: "backend \<Rightarrow> DHPrivateKey \<Rightarrow> DHPublicKey \<Rightarrow> error + bytes" where
  "computeSharedSecret B myPrivateKey otherPublicKey =
     and_then (exchange myPrivateKey otherPublicKey)
       (\<lambda>shared_key. Inr (hkdf_sha256 B 32 None handshake_data shared_key))"

definition encryptMessage :: "backend \<Rightarrow> bytes \<Rightarrow> str \<Rightarrow> error + bytes" where
  "encryptMessage B shared_secret msg =
     and_then (py_encode (PyStr msg)) (\<lambda>data.
     and_then (createCipher shared_secret) (\<lambda>c.
     encryptor B c (pkcs7_pad data)))"

definition decryptMessage :: "backend \<Rightarrow> bytes \<Rightarrow> bytes \<Rightarrow> error + str" where
  "decryptMessage B shared_secret msg =
     and_then (createCipher shared_secret) (\<lambda>c.
     and_then (decryptor B c msg) (\<lambda>dt.
     and_then (pkcs7_unpad dt) (\<lambda>unpadded_data.
     py_decode (PyBytes unpadded_data))))"

definition serializePublicKey :: "backend \<Rightarrow> DHPublicKey \<Rightarrow> error + str" where
  "serializePublicKey B public_key = py_decode (PyBytes (public_bytes_pem B public_key))"

definition deserializePublicKey :: "backend \<Rightarrow> str \<Rightarrow> error + DHPublicKey" where
  "deserializePublicKey B public_key =
     and_then (py_encode (PyStr public_key)) (load_pem_public_key B)"

text \<open>
  What \<^verbatim>\<open>decryptOnionLayer\<close> returns: one tuple per server type, or \<^verbatim>\<open>None\<close> when the function
  falls off its end. The lines it prints come with the value.
\<close>

datatype onion_fields =
  FrontOrMiddle DHPublicKey str
| Spreading DHPublicKey int str
| DeadDrop DHPublicKey int int str
| PyNone

definition hash_sign :: codepoint where
  "hash_sign = 35"

definition role_error_line :: string where
  "role_error_line = ''ERROR decryptOnionLayer: serverType must be in {0,1,2}''"

text \<open>The \<^verbatim>\<open>if\<close> chain on \<^verbatim>\<open>serverType\<close>, lines 109 to 119 of the module.\<close>

definition fields_by_serverType ::
    "DHPublicKey \<Rightarrow> str \<Rightarrow> int \<Rightarrow> error + (string list \<times> onion_fields)" where
  "fields_by_serverType ppk decryptedPayload serverType =
     (if serverType = 0 then Inr ([], FrontOrMiddle ppk decryptedPayload)
      else if serverType = 1 then
        and_then (unpack3 (split_max hash_sign 2 decryptedPayload)) (\<lambda>(DDS, payload1, payload2).
        and_then (py_int DDS) (\<lambda>n.
        Inr ([], Spreading ppk n (payload1 @ [hash_sign] @ payload2))))
      else if serverType = 2 then
        and_then (unpack3 (split_max hash_sign 2 decryptedPayload)) (\<lambda>(clientChain, DD, payload).
        and_then (py_int clientChain) (\<lambda>n.
        and_then (py_int DD) (\<lambda>m.
        Inr ([], DeadDrop ppk n m payload))))
      else Inr ([role_error_line], PyNone))"

definition decryptOnionLayer ::
    "backend \<Rightarrow> DHPrivateKey \<Rightarrow> str \<Rightarrow> int \<Rightarrow> error + (string list \<times> onion_fields)" where
  "decryptOnionLayer B serverPrivateKey msgPayload serverType =
     and_then (unpack2 (split_max hash_sign 1 msgPayload)) (\<lambda>(ppk_text, payload).
     and_then (deserializePublicKey B ppk_text) (\<lambda>ppk.
     and_then (py_encode (PyStr payload)) (\<lambda>payload_bytes.
     and_then (computeSharedSecret B serverPrivateKey ppk) (\<lambda>sharedSecret.
     and_then (decryptMessage B sharedSecret payload_bytes) (\<lambda>plaintext.
     and_then (py_decode (PyStr plaintext)) (\<lambda>decryptedPayload.
     fields_by_serverType ppk decryptedPayload serverType))))))"

definition encryptOnionLayer :: "backend \<Rightarrow> DHPrivateKey \<Rightarrow> DHPublicKey \<Rightarrow> str \<Rightarrow> error + str" where
  "encryptOnionLayer B serverPrivateKey clientPublicKey msgPayload =
     and_then (computeSharedSecret B serverPrivateKey clientPublicKey) (\<lambda>sharedSecret.
     and_then (encryptMessage B sharedSecret msgPayload) (\<lambda>encryptedPayload.
     py_decode (PyBytes encryptedPayload)))"

section \<open>A sample backend\<close>

text \<open>
  A small backend on which the module runs on concrete inputs: the block permutation XORs
  a block with the first sixteen key bytes and with the initialization vector, the key
  derivation cuts or zero-pads its input to the length asked for, and a public key is
  written as the decimal numbers \<open>p\<close>, \<open>g\<close> and \<open>y\<close> with commas between them.
\<close>

fun decimal :: "nat \<Rightarrow> bytes" where
  "decimal n = (if n < 10 then [of_nat (48 + n)] else decimal (n div 10) @ [of_nat (48 + n mod 10)])"

declare decimal.simps [simp del]

definition undecimal :: "bytes \<Rightarrow> nat option" where
  "undecimal bs =
     (if bs \<noteq> [] \<and> list_all (\<lambda>b. 48 \<le> unat b \<and> unat b \<le> 57) bs
      then Some (foldl (\<lambda>acc b. 10 * acc + (unat b - 48)) 0 bs)
      else None)"

definition sample_public_bytes :: "DHPublicKey \<Rightarrow> bytes" where
  "sample_public_bytes k =
     decimal (dh_p (public_parameters k)) @ [44] @ decimal (dh_g (public_parameters k)) @ [44]
     @ decimal (public_y k)"

definition sample_load_public_key :: "bytes \<Rightarrow> error + DHPublicKey" where
  "sample_load_public_key bs =
     (case unpack3 (map undecimal (split_max 44 2 bs)) of
        Inr (Some p, Some g, Some y) \<Rightarrow>
          Inr \<lparr>public_parameters = \<lparr>dh_p = p, dh_g = g\<rparr>, public_y = y\<rparr>
      | _ \<Rightarrow> Inl ValueError)"

definition sample_backend :: backend where
  "sample_backend =
     \<lparr>aes_encrypt_block = (\<lambda>k b. xor_bytes (xor_bytes b (take 16 k)) iv),
      aes_decrypt_block = (\<lambda>k b. xor_bytes (xor_bytes b iv) (take 16 k)),
      hkdf_sha256 = (\<lambda>n salt info ikm. take n (ikm @ replicate n 0)),
      public_bytes_pem = sample_public_bytes,
      load_pem_public_key = sample_load_public_key\<rparr>"

text \<open>The same backend with the PEM writer and reader of the package.\<close>

definition sample_pem_backend :: backend where
  "sample_pem_backend =
     sample_backend\<lparr>public_bytes_pem := spki_pem, load_pem_public_key := load_spki_pem\<rparr>"

section \<open>Running the module on concrete inputs\<close>

lemma replicate_numeral_eval: "replicate (numeral k) x = x # replicate (pred_numeral k) x"
  by (simp add: numeral_eq_Suc)

lemma split_max_1:
  "split_max sep 1 s =
     (if sep \<in> set s
      then [takeWhile (\<lambda>c. c \<noteq> sep) s, tl (dropWhile (\<lambda>c. c \<noteq> sep) s)]
      else [s])"
  by (simp add: One_nat_def [symmetric] del: One_nat_def) simp

lemma split_max_2:
  "split_max sep 2 s =
     (if sep \<in> set s
      then takeWhile (\<lambda>c. c \<noteq> sep) s # split_max sep 1 (tl (dropWhile (\<lambda>c. c \<noteq> sep) s))
      else [s])"
  by (simp add: numeral_2_eq_2)

lemmas run_simps =
  encryptOnionLayer_def decryptOnionLayer_def computeSharedSecret_def generateKeys_def
  createKeyGenerator_def generate_private_key_def public_key_of_def exchange_def
  byte_length.simps sample_backend_def encryptMessage_def decryptMessage_def encode_cp_def
  createCipher_def encryptor_def decryptor_def pkcs7_pad_def pkcs7_unpad_def cbc_encrypt.simps
  cbc_decrypt.simps xor_bytes_def iv_def utf8_width_def serializePublicKey_def
  deserializePublicKey_def sample_public_bytes_def sample_load_public_key_def decimal.simps
  undecimal_def hash_sign_def handshake_data_def split_max_1 split_max_2 replicate_numeral_eval

section \<open>Properties\<close>

subsection \<open>Sequencing\<close>

lemma and_then_Inr_iff: "and_then m f = Inr y \<longleftrightarrow> (\<exists>x. m = Inr x \<and> f x = Inr y)"
  by (cases m) simp_all

subsection \<open>UTF-8\<close>

lemma step64: "(q::nat) div 64 * (64 * k) + q mod 64 * k = q * k"
proof -
  have "(q div 64 * 64 + q mod 64) * k = q div 64 * (64 * k) + q mod 64 * k"
    by (simp only: add_mult_distrib mult.assoc)
  then show ?thesis by (simp only: div_mult_mod_eq)
qed

lemma radix3: "(c::nat) div 4096 * 4096 + c div 64 mod 64 * 64 + c mod 64 = c"
proof -
  have a: "c div 4096 = c div 64 div 64" by (simp add: div_mult2_eq)
  have "c div 64 div 64 * 4096 + c div 64 mod 64 * 64 = c div 64 * 64"
    using step64 [of "c div 64" 64] by simp
  then show ?thesis by (simp only: a div_mult_mod_eq)
qed

lemma radix4: "(c::nat) div 262144 * 262144 + c div 4096 mod 64 * 4096 + c div 64 mod 64 * 64 + c mod 64 = c"
proof -
  have a: "c div 262144 = c div 4096 div 64" by (simp add: div_mult2_eq)
  have "c div 4096 div 64 * 262144 + c div 4096 mod 64 * 4096 = c div 4096 * 4096"
    using step64 [of "c div 4096" 4096] by simp
  then show ?thesis by (simp only: a radix3)
qed

lemma lead_mod8: "x < 8 \<Longrightarrow> (240 + x) mod 8 = (x::nat)"
  by (subst mod_add_left_eq [symmetric]) simp
lemma lead_mod16: "y < 16 \<Longrightarrow> (224 + y) mod 16 = (y::nat)"
  by (subst mod_add_left_eq [symmetric]) simp
lemma lead_mod32: "z < 32 \<Longrightarrow> (192 + z) mod 32 = (z::nat)"
  by (subst mod_add_left_eq [symmetric]) simp
lemma cont_mod64: "(128 + v mod 64) mod 64 = (v::nat) mod 64"
  by (subst mod_add_left_eq [symmetric]) simp

lemma unat_byte_of_nat: "n < 256 \<Longrightarrow> unat (of_nat n :: byte) = n"
  by (simp add: unat_of_nat)

lemma utf8_decode_chunk:
  assumes "utf8_width b = Suc (length ch)" "encode_cp (payload_bits (b # ch)) = Some (b # ch)"
  shows "utf8_decode (b # ch @ rest) =
     (case utf8_decode rest of Inl e \<Rightarrow> Inl e | Inr cs \<Rightarrow> Inr (payload_bits (b # ch) # cs))"
  using assms by (cases "utf8_decode rest") simp_all

lemma encode_cp_shape:
  assumes "encode_cp c = Some bs"
  shows "bs \<noteq> [] \<and> utf8_width (hd bs) = length bs \<and> payload_bits bs = c"
proof -
  consider (one) "c < 0x80" | (two) "0x80 \<le> c" "c < 0x800"
    | (three) "0x800 \<le> c" "c < 0x10000" "\<not> (0xD800 \<le> c \<and> c \<le> 0xDFFF)"
    | (four) "0x10000 \<le> c" "c < 0x110000"
    using assms by (auto simp: encode_cp_def split: if_splits)
  then show ?thesis
  proof cases
    case one
    then have bs: "bs = [of_nat c]" using assms by (simp add: encode_cp_def)
    have u: "unat (of_nat c :: byte) = c" using one by (simp add: unat_byte_of_nat)
    show ?thesis using one by (simp add: bs u utf8_width_def)
  next
    case two
    then have bs: "bs = [of_nat (0xC0 + c div 64), of_nat (0x80 + c mod 64)]"
      using assms by (simp add: encode_cp_def)
    have d: "c div 64 < 32" using two by simp
    have u1: "unat (of_nat (0xC0 + c div 64) :: byte) = 0xC0 + c div 64"
      by (rule unat_byte_of_nat) (use d in simp)
    have u2: "unat (of_nat (0x80 + c mod 64) :: byte) = 0x80 + c mod 64"
      by (rule unat_byte_of_nat) simp
    have w: "utf8_width (of_nat (0xC0 + c div 64)) = 2"
      unfolding utf8_width_def u1 using d by simp
    have "(0xC0 + c div 64) mod 32 * 64 + (0x80 + c mod 64) mod 64 = c"
      using d by (simp add: lead_mod32 cont_mod64)
    then have p: "payload_bits [of_nat (0xC0 + c div 64), of_nat (0x80 + c mod 64)] = c"
      unfolding payload_bits.simps u1 u2 .
    show ?thesis using w p unfolding bs by simp
  next
    case three
    then have bs: "bs = [of_nat (0xE0 + c div 4096), of_nat (0x80 + c div 64 mod 64),
        of_nat (0x80 + c mod 64)]"
      using assms by (auto simp: encode_cp_def split: if_splits)
    have d: "c div 4096 < 16" using three by simp
    have u1: "unat (of_nat (0xE0 + c div 4096) :: byte) = 0xE0 + c div 4096"
      by (rule unat_byte_of_nat) (use d in simp)
    have u2: "unat (of_nat (0x80 + c div 64 mod 64) :: byte) = 0x80 + c div 64 mod 64"
      by (rule unat_byte_of_nat) simp
    have u3: "unat (of_nat (0x80 + c mod 64) :: byte) = 0x80 + c mod 64"
      by (rule unat_byte_of_nat) simp
    have w: "utf8_width (of_nat (0xE0 + c div 4096)) = 3"
      unfolding utf8_width_def u1 using d by simp
    have "(0xE0 + c div 4096) mod 16 * 4096 + (0x80 + c div 64 mod 64) mod 64 * 64
        + (0x80 + c mod 64) mod 64 = c"
      using d by (simp add: lead_mod16 cont_mod64 radix3)
    then have p: "payload_bits [of_nat (0xE0 + c div 4096), of_nat (0x80 + c div 64 mod 64),
        of_nat (0x80 + c mod 64)] = c"
      unfolding payload_bits.simps u1 u2 u3 .
    show ?thesis using w p unfolding bs by simp
  next
    case four
    then have bs: "bs = [of_nat (0xF0 + c div 262144), of_nat (0x80 + c div 4096 mod 64),
        of_nat (0x80 + c div 64 mod 64), of_nat (0x80 + c mod 64)]"
      using assms by (simp add: encode_cp_def)
    have d: "c div 262144 < 8" using four by simp
    have u1: "unat (of_nat (0xF0 + c div 262144) :: byte) = 0xF0 + c div 262144"
      by (rule unat_byte_of_nat) (use d in simp)
    have u2: "unat (of_nat (0x80 + c div 4096 mod 64) :: byte) = 0x80 + c div 4096 mod 64"
      by (rule unat_byte_of_nat) simp
    have u3: "unat (of_nat (0x80 + c div 64 mod 64) :: byte) = 0x80 + c div 64 mod 64"
      by (rule unat_byte_of_nat) simp
    have u4: "unat (of_nat (0x80 + c mod 64) :: byte) = 0x80 + c mod 64"
      by (rule unat_byte_of_nat) simp
    have w: "utf8_width (of_nat (0xF0 + c div 262144)) = 4"
      unfolding utf8_width_def u1 using d by simp
    have "(0xF0 + c div 262144) mod 8 * 262144 + (0x80 + c div 4096 mod 64) mod 64 * 4096
        + (0x80 + c div 64 mod 64) mod 64 * 64 + (0x80 + c mod 64) mod 64 = c"
      using d by (simp add: lead_mod8 cont_mod64 radix4)
    then have p: "payload_bits [of_nat (0xF0 + c div 262144), of_nat (0x80 + c div 4096 mod 64),
        of_nat (0x80 + c div 64 mod 64), of_nat (0x80 + c mod 64)] = c"
      unfolding payload_bits.simps u1 u2 u3 u4 .
    show ?thesis using w p unfolding bs by simp
  qed
qed

lemma decode_encode_cp:
  assumes "encode_cp c = Some bs"
  shows "utf8_decode (bs @ rest) =
     (case utf8_decode rest of Inl e \<Rightarrow> Inl e | Inr cs \<Rightarrow> Inr (c # cs))"
proof -
  from encode_cp_shape [OF assms] obtain b ch where
    bs: "bs = b # ch" and w: "utf8_width b = Suc (length ch)" and p: "payload_bits (b # ch) = c"
    by (cases bs) auto
  have "encode_cp (payload_bits (b # ch)) = Some (b # ch)" using assms bs p by simp
  from utf8_decode_chunk [OF w this, of rest] show ?thesis unfolding bs p by simp
qed

lemma utf8_decode_encode:
  "utf8_encode m = Inr bs \<Longrightarrow> utf8_decode bs = Inr m"
proof (induction m arbitrary: bs)
  case Nil
  then show ?case by simp
next
  case (Cons c cs)
  then obtain h r where h: "encode_cp c = Some h" and r: "utf8_encode cs = Inr r"
    and bs: "bs = h @ r"
    by (auto split: option.splits sum.splits)
  show ?case using Cons.IH [OF r] by (simp add: bs decode_encode_cp [OF h])
qed

lemma utf8_encode_decode:
  "utf8_decode bs = Inr m \<Longrightarrow> utf8_encode m = Inr bs"
proof (induction bs arbitrary: m rule: utf8_decode.induct)
  case 1
  then show ?case by simp
next
  case (2 b bs)
  let ?k = "utf8_width b - 1"
  let ?chunk = "b # take ?k bs"
  from "2.prems" have ok: "\<not> (utf8_width b = 0 \<or> length bs < ?k)"
    and enc: "encode_cp (payload_bits ?chunk) = Some ?chunk"
    by (auto split: if_splits)
  from "2.prems" ok enc obtain cs where cs: "utf8_decode (drop ?k bs) = Inr cs"
    and m: "m = payload_bits ?chunk # cs"
    by (auto split: if_splits sum.splits)
  from "2.IH" [OF ok _ cs] enc have "utf8_encode cs = Inr (drop ?k bs)" by simp
  then show ?case using enc by (simp add: m)
qed

subsection \<open>Key agreement\<close>

lemma power_power_mod: "((g::nat) ^ b mod p) ^ a mod p = g ^ (a * b) mod p"
  by (metis power_mod power_mult mult.commute)

lemma exchange_value:
  "exchange (generate_private_key G a) (public_key_of (generate_private_key G b)) =
     Inr (to_bytes_be (byte_length (dh_p G)) (dh_g G ^ (a * b) mod dh_p G))"
  unfolding exchange_def generate_private_key_def public_key_of_def
  by (simp add: power_power_mod)

text \<open>
  C2. Two key pairs generated under the same domain parameters, whatever exponents were
  sampled for them, derive the same shared secret from either side:
  \<^verbatim>\<open>computeSharedSecret(A.privateKey, B.publicKey)\<close> equals
  \<^verbatim>\<open>computeSharedSecret(B.privateKey, A.publicKey)\<close>, and both are the 32-byte output of the
  key derivation on the bytes of \<open>g ^ (a * b) mod p\<close>, not an exception.
\<close>

theorem computeSharedSecret_symmetric:
  "computeSharedSecret B (fst (generateKeys G a)) (snd (generateKeys G b)) =
     computeSharedSecret B (fst (generateKeys G b)) (snd (generateKeys G a))
   \<and> computeSharedSecret B (fst (generateKeys G a)) (snd (generateKeys G b)) =
     Inr (hkdf_sha256 B 32 None handshake_data
            (to_bytes_be (byte_length (dh_p G)) (dh_g G ^ (a * b) mod dh_p G)))"
  unfolding computeSharedSecret_def generateKeys_def fst_conv snd_conv
  by (simp only: exchange_value mult.commute [of a b] and_then.simps simp_thms)

theorem computeSharedSecret_symmetric_witness:
  "computeSharedSecret sample_backend (fst (generateKeys (createKeyGenerator 1019) 6))
       (snd (generateKeys (createKeyGenerator 1019) 9)) =
     computeSharedSecret sample_backend (fst (generateKeys (createKeyGenerator 1019) 9))
       (snd (generateKeys (createKeyGenerator 1019) 6))
   \<and> computeSharedSecret sample_backend (fst (generateKeys (createKeyGenerator 1019) 6))
       (snd (generateKeys (createKeyGenerator 1019) 9)) = Inr (0 # 69 # replicate 30 0)"
  using computeSharedSecret_symmetric [of sample_backend "createKeyGenerator 1019" 6 9]
  by (simp add: run_simps)

subsection \<open>The symmetric cipher\<close>

lemma length_pkcs7_pad: "length (pkcs7_pad d) mod 16 = 0"
proof -
  have "(length d + (16 - length d mod 16)) mod 16 = 0" by presburger
  then show ?thesis by (simp add: pkcs7_pad_def)
qed

lemma createCipher_32:
  "length s = 32 \<Longrightarrow> createCipher s = Inr \<lparr>cipher_key = s, cipher_iv = iv\<rparr>"
  by (simp add: createCipher_def)

lemma encryptMessage_32:
  "length s = 32 \<Longrightarrow> encryptMessage B s m =
     and_then (utf8_encode m)
       (\<lambda>data. Inr (cbc_encrypt (aes_encrypt_block B s) iv (pkcs7_pad data)))"
  by (cases "utf8_encode m")
    (simp_all add: encryptMessage_def createCipher_32 encryptor_def length_pkcs7_pad)

lemma pkcs7_unpad_pad: "pkcs7_unpad (pkcs7_pad d) = Inr d"
proof -
  define n where "n = 16 - length d mod 16"
  have n: "0 < n" "n \<le> 16" by (simp_all add: n_def)
  have u: "unat (of_nat n :: byte) = n" using n by (simp add: unat_of_nat)
  have p: "pkcs7_pad d = d @ replicate n (of_nat n)" by (simp add: pkcs7_pad_def n_def)
  have l: "last (d @ replicate n (of_nat n :: byte)) = of_nat n" using n by simp
  have m: "(length d + n) mod 16 = 0" unfolding n_def by presburger
  show ?thesis unfolding p pkcs7_unpad_def l u using n m by simp
qed

lemma xor_bytes_cancel: "length a = length b \<Longrightarrow> xor_bytes (xor_bytes a b) b = a"
  unfolding xor_bytes_def by (induction a b rule: list_induct2) (simp_all add: xor.assoc)

lemma length_xor_bytes: "length (xor_bytes a b) = min (length a) (length b)"
  by (simp add: xor_bytes_def)

lemma cbc_decrypt_encrypt:
  "inverse_on_blocks E D \<Longrightarrow> length prev = 16 \<Longrightarrow> length d mod 16 = 0 \<Longrightarrow>
     cbc_decrypt D prev (cbc_encrypt E prev d) = d"
proof (induction E prev d rule: cbc_encrypt.induct)
  case (1 E prev d)
  show ?case
  proof (cases "length d < 16")
    case True
    with "1.prems" have "d = []" by simp
    then show ?thesis by (simp add: cbc_encrypt.simps cbc_decrypt.simps)
  next
    case False
    let ?blk = "take 16 d"
    let ?c = "E (xor_bytes ?blk prev)"
    have lb: "length (xor_bytes ?blk prev) = 16"
      using False "1.prems" by (simp add: length_xor_bytes)
    have lc: "length ?c = 16" and dc: "D ?c = xor_bytes ?blk prev"
      using "1.prems"(1) lb by (simp_all add: inverse_on_blocks_def)
    have ld: "length (drop 16 d) mod 16 = 0"
      using False "1.prems"(3) by simp presburger
    have ih: "cbc_decrypt D ?c (cbc_encrypt E ?c (drop 16 d)) = drop 16 d"
      using "1.IH" [OF False "1.prems"(1) lc ld] .
    have enc: "cbc_encrypt E prev d = ?c @ cbc_encrypt E ?c (drop 16 d)"
      using False by (subst cbc_encrypt.simps) simp
    have "cbc_decrypt D prev (?c @ cbc_encrypt E ?c (drop 16 d)) =
        xor_bytes (D ?c) prev @ cbc_decrypt D ?c (cbc_encrypt E ?c (drop 16 d))"
      using lc by (subst cbc_decrypt.simps) simp
    also have "\<dots> = ?blk @ drop 16 d"
      using False "1.prems"(2) by (simp add: dc ih xor_bytes_cancel)
    finally show ?thesis by (simp add: enc)
  qed
qed


lemma length_cbc_encrypt:
  "inverse_on_blocks E D \<Longrightarrow> length prev = 16 \<Longrightarrow> length d mod 16 = 0 \<Longrightarrow>
     length (cbc_encrypt E prev d) = length d"
proof (induction E prev d rule: cbc_encrypt.induct)
  case (1 E prev d)
  show ?case
  proof (cases "length d < 16")
    case True
    with "1.prems" have "d = []" by simp
    then show ?thesis by (simp add: cbc_encrypt.simps)
  next
    case False
    let ?c = "E (xor_bytes (take 16 d) prev)"
    have lb: "length (xor_bytes (take 16 d) prev) = 16"
      using False "1.prems" by (simp add: length_xor_bytes)
    have lc: "length ?c = 16"
      using "1.prems"(1) lb by (simp add: inverse_on_blocks_def)
    have ld: "length (drop 16 d) mod 16 = 0"
      using False "1.prems"(3) by simp presburger
    have "length (cbc_encrypt E ?c (drop 16 d)) = length (drop 16 d)"
      using "1.IH" [OF False "1.prems"(1) lc ld] .
    then show ?thesis using False lc by (subst cbc_encrypt.simps) simp
  qed
qed

lemma length_iv: "length iv = 16"
  by (simp add: iv_def)

lemma createCipher_ok:
  "length s = 16 \<or> length s = 24 \<or> length s = 32 \<Longrightarrow>
     createCipher s = Inr \<lparr>cipher_key = s, cipher_iv = iv\<rparr>"
  by (simp add: createCipher_def)

lemma decryptMessage_encryptMessage:
  assumes E: "inverse_on_blocks (aes_encrypt_block B s) (aes_decrypt_block B s)"
    and s: "length s = 16 \<or> length s = 24 \<or> length s = 32"
    and m: "utf8_encode m = Inr data"
  shows "encryptMessage B s m = Inr (cbc_encrypt (aes_encrypt_block B s) iv (pkcs7_pad data))"
    and "decryptMessage B s (cbc_encrypt (aes_encrypt_block B s) iv (pkcs7_pad data)) = Inr m"
proof -
  let ?c = "cbc_encrypt (aes_encrypt_block B s) iv (pkcs7_pad data)"
  show "encryptMessage B s m = Inr ?c"
    by (simp add: encryptMessage_def m createCipher_ok [OF s] encryptor_def length_pkcs7_pad)
  have l: "length ?c mod 16 = 0"
    by (simp add: length_cbc_encrypt [OF E length_iv length_pkcs7_pad] length_pkcs7_pad)
  have d: "cbc_decrypt (aes_decrypt_block B s) iv ?c = pkcs7_pad data"
    by (rule cbc_decrypt_encrypt [OF E length_iv length_pkcs7_pad])
  show "decryptMessage B s ?c = Inr m"
    by (simp add: decryptMessage_def createCipher_ok [OF s] decryptor_def l d pkcs7_unpad_pad
        utf8_decode_encode [OF m])
qed

lemma utf8_encode_ascii: "\<forall>c\<in>set m. c < 0x80 \<Longrightarrow> utf8_encode m = Inr (map of_nat m)"
  by (induction m) (simp_all add: encode_cp_def)

text \<open>
  C3. Under a 32-byte secret, for a plaintext of 1 to 1000 characters, each a printable
  ASCII character (code points 32 to 126: space, digits, letters and all ASCII
  punctuation), \<^verbatim>\<open>encryptMessage\<close> returns a ciphertext and \<^verbatim>\<open>decryptMessage\<close> on that ciphertext
  returns the plaintext, on every backend whose AES block decryption undoes its block
  encryption under that secret. (The lemma \<open>decryptMessage_encryptMessage\<close> shows the same
  for every string that has a UTF-8 encoding, of any length.)
\<close>

theorem decryptMessage_inverts_encryptMessage:
  assumes "inverse_on_blocks (aes_encrypt_block B s) (aes_decrypt_block B s)"
    and "length s = 32"
    and "\<forall>c\<in>set m. 32 \<le> c \<and> c \<le> 126" and "1 \<le> length m" and "length m \<le> 1000"
  shows "and_then (encryptMessage B s m) (decryptMessage B s) = Inr m"
proof -
  have "\<forall>c\<in>set m. c < 0x80" using assms(3) by auto
  then have enc: "utf8_encode m = Inr (map of_nat m)" by (rule utf8_encode_ascii)
  from assms(2) have s: "length s = 16 \<or> length s = 24 \<or> length s = 32" by simp
  show ?thesis
    using decryptMessage_encryptMessage [OF assms(1) s enc] by simp
qed

lemma sample_backend_blocks:
  "16 \<le> length k \<Longrightarrow>
     inverse_on_blocks (aes_encrypt_block sample_backend k) (aes_decrypt_block sample_backend k)"
  by (simp add: inverse_on_blocks_def sample_backend_def length_xor_bytes length_iv
      xor_bytes_cancel)

theorem decryptMessage_inverts_encryptMessage_witness:
  "inverse_on_blocks (aes_encrypt_block sample_backend (0 # 69 # replicate 30 0))
     (aes_decrypt_block sample_backend (0 # 69 # replicate 30 0))
   \<and> length (0 # 69 # replicate 30 (0 :: byte)) = 32
   \<and> list_all (\<lambda>c. 32 \<le> c \<and> c \<le> 126) [104, 101, 108, 108, 111, 35, 119, 111, 114, 108, 100 :: nat]
   \<and> 1 \<le> length [104, 101, 108, 108, 111, 35, 119, 111, 114, 108, 100 :: nat]
   \<and> length [104, 101, 108, 108, 111, 35, 119, 111, 114, 108, 100 :: nat] \<le> 1000
   \<and> encryptMessage sample_backend (0 # 69 # replicate 30 0)
         [104, 101, 108, 108, 111, 35, 119, 111, 114, 108, 100] =
       Inr [104, 32, 108, 108, 111, 35, 119, 111, 114, 108, 100, 5, 5, 5, 5, 5]
   \<and> and_then (encryptMessage sample_backend (0 # 69 # replicate 30 0)
         [104, 101, 108, 108, 111, 35, 119, 111, 114, 108, 100])
       (decryptMessage sample_backend (0 # 69 # replicate 30 0)) =
       Inr [104, 101, 108, 108, 111, 35, 119, 111, 114, 108, 100]"
proof -
  have b: "inverse_on_blocks (aes_encrypt_block sample_backend (0 # 69 # replicate 30 0))
     (aes_decrypt_block sample_backend (0 # 69 # replicate 30 0))"
    by (rule sample_backend_blocks) simp
  have l: "length (0 # 69 # replicate 30 (0 :: byte)) = 32" by simp
  have c: "\<forall>c\<in>set [104, 101, 108, 108, 111, 35, 119, 111, 114, 108, 100 :: nat]. 32 \<le> c \<and> c \<le> 126"
    by simp
  have n: "1 \<le> length [104, 101, 108, 108, 111, 35, 119, 111, 114, 108, 100 :: nat]"
    "length [104, 101, 108, 108, 111, 35, 119, 111, 114, 108, 100 :: nat] \<le> 1000"
    by simp_all
  have e: "encryptMessage sample_backend (0 # 69 # replicate 30 0)
         [104, 101, 108, 108, 111, 35, 119, 111, 114, 108, 100] =
       Inr [104, 32, 108, 108, 111, 35, 119, 111, 114, 108, 100, 5, 5, 5, 5, 5]"
    by (simp add: run_simps)
  from decryptMessage_inverts_encryptMessage [OF b l c n] b l c n e show ?thesis
    by (simp add: list_all_iff)
qed

text \<open>
  C8. \<^verbatim>\<open>encryptMessage\<close> is a function of the secret and the plaintext alone: under a
  32-byte secret the ciphertext is the CBC chain of the padded, encoded plaintext started
  from the one 16-byte vector written in \<^verbatim>\<open>createCipher\<close>, so two invocations with the same
  secret and the same plaintext return the same bytes.
\<close>

theorem encryptMessage_fixed_iv:
  assumes "length shared_secret = 32"
  shows "encryptMessage B shared_secret msg =
      and_then (utf8_encode msg)
        (\<lambda>data. Inr (cbc_encrypt (aes_encrypt_block B shared_secret)
           [0x2B, 0xED, 0x36, 0xDD, 0xF0, 0xB1, 0x17, 0xA2, 0xA7, 0x12, 0x13, 0xD3, 0xD0, 0xF9,
            0x14, 0xAC]
           (pkcs7_pad data)))
    \<and> (shared_secret' = shared_secret \<and> msg' = msg \<longrightarrow>
         encryptMessage B shared_secret' msg' = encryptMessage B shared_secret msg)"
  using assms by (simp add: encryptMessage_32 iv_def)

theorem encryptMessage_fixed_iv_witness:
  "length (0 # 69 # replicate 30 (0 :: byte)) = 32
   \<and> encryptMessage sample_backend (0 # 69 # replicate 30 0) [55, 35, 56, 35, 104, 101, 108, 108, 111] =
       Inr [55, 102, 56, 35, 104, 101, 108, 108, 111, 7, 7, 7, 7, 7, 7, 7]
   \<and> encryptMessage sample_backend (0 # 69 # replicate 30 0) [55, 35, 56, 35, 104, 101, 108, 108, 111] =
       and_then (utf8_encode [55, 35, 56, 35, 104, 101, 108, 108, 111])
        (\<lambda>data. Inr (cbc_encrypt (aes_encrypt_block sample_backend (0 # 69 # replicate 30 0))
           [0x2B, 0xED, 0x36, 0xDD, 0xF0, 0xB1, 0x17, 0xA2, 0xA7, 0x12, 0x13, 0xD3, 0xD0, 0xF9,
            0x14, 0xAC]
           (pkcs7_pad data)))"
  using encryptMessage_fixed_iv [of "0 # 69 # replicate 30 0" sample_backend
      "[55, 35, 56, 35, 104, 101, 108, 108, 111]"]
  by (simp add: run_simps)

subsection \<open>Key serialization\<close>

lemma utf8_decode_ascii: "\<forall>b\<in>set bs. unat b < 0x80 \<Longrightarrow> utf8_decode bs = Inr (map unat bs)"
  by (induction bs) (simp_all add: utf8_width_def encode_cp_def)

lemma deserialize_serialize:
  assumes "load_pem_public_key B (public_bytes_pem B k) = Inr k"
    and "\<forall>b\<in>set (public_bytes_pem B k). unat b < 0x80"
  shows "serializePublicKey B k = Inr (map unat (public_bytes_pem B k))"
    and "deserializePublicKey B (map unat (public_bytes_pem B k)) = Inr k"
proof -
  have d: "utf8_decode (public_bytes_pem B k) = Inr (map unat (public_bytes_pem B k))"
    using assms(2) by (rule utf8_decode_ascii)
  show "serializePublicKey B k = Inr (map unat (public_bytes_pem B k))"
    by (simp add: serializePublicKey_def d)
  show "deserializePublicKey B (map unat (public_bytes_pem B k)) = Inr k"
    by (simp add: deserializePublicKey_def utf8_encode_decode [OF d] assms(1))
qed

lemma byte_length_bound: "n < 256 ^ byte_length n"
proof (induction n rule: byte_length.induct)
  case (1 n)
  show ?case
  proof (cases "n = 0")
    case True
    then show ?thesis by simp
  next
    case False
    from 1 [OF False] have "n div 256 < 256 ^ byte_length (n div 256)" .
    then have "n < 256 * 256 ^ byte_length (n div 256)" by arith
    then show ?thesis using False by (subst byte_length.simps) simp
  qed
qed

lemma byte_length_le: "n < 256 ^ k \<Longrightarrow> byte_length n \<le> k"
proof (induction k arbitrary: n)
  case 0
  then show ?case by (simp add: byte_length.simps)
next
  case (Suc k)
  then have "n div 256 < 256 ^ k" by simp
  from Suc.IH [OF this] show ?case by (subst byte_length.simps) simp
qed

lemma length_to_bytes_be: "length (to_bytes_be k v) = k"
  by (induction k arbitrary: v) simp_all

lemma from_bytes_be_snoc: "from_bytes_be (xs @ [b]) = 256 * from_bytes_be xs + unat b"
  by (simp add: from_bytes_be_def)

lemma from_bytes_be_zero: "from_bytes_be (0 # bs) = from_bytes_be bs"
  by (simp add: from_bytes_be_def)

lemma from_to_bytes_be: "v < 256 ^ k \<Longrightarrow> from_bytes_be (to_bytes_be k v) = v"
proof (induction k arbitrary: v)
  case 0
  then show ?case by (simp add: from_bytes_be_def)
next
  case (Suc k)
  then have "v div 256 < 256 ^ k" by simp
  from Suc.IH [OF this] have ih: "from_bytes_be (to_bytes_be k (v div 256)) = v div 256" .
  have u: "unat (of_nat (v mod 256) :: byte) = v mod 256"
    by (rule unat_byte_of_nat) simp
  show ?case by (simp only: to_bytes_be.simps from_bytes_be_snoc ih u) simp
qed

lemma from_bytes_be_integer_content: "from_bytes_be (integer_content n) = n"
proof -
  have f: "from_bytes_be (to_bytes_be (byte_length n) n) = n"
    by (rule from_to_bytes_be) (rule byte_length_bound)
  show ?thesis
  proof (cases "to_bytes_be (byte_length n) n")
    case Nil
    with f show ?thesis by (simp add: integer_content_def from_bytes_be_def)
  next
    case (Cons b bs)
    with f show ?thesis by (simp add: integer_content_def from_bytes_be_zero)
  qed
qed

lemma length_integer_content: "length (integer_content n) \<le> byte_length n + 1"
proof (cases "to_bytes_be (byte_length n) n")
  case Nil
  then show ?thesis by (simp add: integer_content_def)
next
  case (Cons b bs)
  have "length (to_bytes_be (byte_length n) n) = byte_length n" by (rule length_to_bytes_be)
  with Cons show ?thesis by (simp add: integer_content_def)
qed

lemma der_read_tlv:
  assumes "length c < 256 ^ 127"
  shows "der_read tag (der_tlv tag c @ rest) = Some (c, rest)"
proof (cases "length c < 128")
  case True
  have u: "unat (of_nat (length c) :: byte) = length c"
    by (rule unat_byte_of_nat) (use True in simp)
  have dl: "der_length (length c) = [of_nat (length c)]" using True by (simp add: der_length_def)
  have z: "length c - 128 = 0" using True by simp
  show ?thesis unfolding der_read_def der_tlv_def dl by (simp add: u True dl z Let_def)
next
  case False
  define K where "K = byte_length (length c)"
  define l :: byte where "l = of_nat (128 + K)"
  have K: "K \<le> 127" using byte_length_le [OF assms] by (simp add: K_def)
  have u: "unat l = 128 + K"
    unfolding l_def by (rule unat_byte_of_nat) (use K in simp)
  have dl: "der_length (length c) = l # to_bytes_be K (length c)"
    using False by (simp add: der_length_def K_def l_def)
  have f: "from_bytes_be (to_bytes_be K (length c)) = length c"
    by (rule from_to_bytes_be) (simp add: K_def byte_length_bound)
  show ?thesis unfolding der_read_def der_tlv_def dl
    by (simp add: u length_to_bytes_be f dl Let_def)
qed

lemma length_der_tlv:
  assumes "length c < 65536"
  shows "length (der_tlv tag c) \<le> length c + 4"
proof -
  have "length c < 256 ^ 2" using assms by simp
  from byte_length_le [OF this] show ?thesis
    by (simp add: der_tlv_def der_length_def length_to_bytes_be)
qed

lemma der_read_small:
  "length c < 65536 \<Longrightarrow> der_read tag (der_tlv tag c @ rest) = Some (c, rest)"
  by (rule der_read_tlv) simp

lemma read_integer_der:
  assumes "n < 2 ^ 512"
  shows "read_integer (der_integer n @ rest) = Some (n, rest)"
    and "length (der_integer n) \<le> 69"
proof -
  have "n < 256 ^ 64" using assms by simp
  from byte_length_le [OF this] length_integer_content [of n]
  have l: "length (integer_content n) \<le> 65" by simp
  then have s: "length (integer_content n) < 65536" by simp
  show "read_integer (der_integer n @ rest) = Some (n, rest)"
    by (simp add: read_integer_def der_integer_def der_read_small [OF s]
        from_bytes_be_integer_content)
  show "length (der_integer n) \<le> 69"
    using length_der_tlv [OF s, of 2] l by (simp add: der_integer_def)
qed

lemma read_subject_public_key_info:
  assumes "dh_p (public_parameters k) < 2 ^ 512" and "dh_g (public_parameters k) < 2 ^ 512"
    and "public_y k < 2 ^ 512"
  shows "read_subject_public_key_info (subject_public_key_info k) = Some k"
proof -
  let ?P = "der_integer (dh_p (public_parameters k))"
  let ?G = "der_integer (dh_g (public_parameters k))"
  let ?Y = "der_integer (public_y k)"
  let ?params = "der_tlv 0x30 (?P @ ?G)"
  let ?alg = "der_tlv 0x30 (dh_oid @ ?params)"
  let ?key = "der_tlv 0x03 (0 # ?Y)"
  note lp = read_integer_der(2) [OF assms(1)]
  note lg = read_integer_der(2) [OF assms(2)]
  note ly = read_integer_der(2) [OF assms(3)]
  have l1: "length (?P @ ?G) < 65536" using lp lg by simp
  have l2: "length (dh_oid @ ?params) < 65536"
    using length_der_tlv [OF l1, of "0x30"] lp lg by (simp add: dh_oid_def)
  have l3: "length (0 # ?Y) < 65536" using ly by simp
  have l4: "length (?alg @ ?key) < 65536"
    using length_der_tlv [OF l2, of "0x30"] length_der_tlv [OF l3, of "0x03"]
      length_der_tlv [OF l1, of "0x30"] lp lg ly
    by (simp add: dh_oid_def)
  have r1: "der_read 0x30 (subject_public_key_info k) = Some (?alg @ ?key, [])"
    unfolding subject_public_key_info_def using der_read_small [OF l4, of "0x30" "[]"] by simp
  have r2: "der_read 0x30 (?alg @ ?key) = Some (dh_oid @ ?params, ?key)"
    by (rule der_read_small [OF l2])
  have r3: "der_read 0x30 ?params = Some (?P @ ?G, [])"
    using der_read_small [OF l1, of "0x30" "[]"] by simp
  have r4: "read_integer (?P @ ?G) = Some (dh_p (public_parameters k), ?G)"
    by (rule read_integer_der(1) [OF assms(1)])
  have r5: "read_integer ?G = Some (dh_g (public_parameters k), [])"
    using read_integer_der(1) [OF assms(2), of "[]"] by simp
  have r6: "der_read 0x03 ?key = Some (0 # ?Y, [])"
    using der_read_small [OF l3, of "0x03" "[]"] by simp
  have r7: "read_integer ?Y = Some (public_y k, [])"
    using read_integer_der(1) [OF assms(3), of "[]"] by simp
  show ?thesis
    unfolding read_subject_public_key_info_def r1
    by (simp add: whole_def r2 r3 r4 r5 r6 r7)
qed

lemma unat_b64_char:
  "unat (b64_char i) =
     (if i < 26 then 65 + i else if i < 52 then 71 + i else if i < 62 then i - 4
      else if i = 62 then 43 else 47)"
proof -
  consider "i < 26" | "26 \<le> i" "i < 52" | "52 \<le> i" "i < 62" | "62 \<le> i" by linarith
  then show ?thesis
  proof cases
    case 1
    have "unat (of_nat (65 + i) :: byte) = 65 + i" by (rule unat_byte_of_nat) (use 1 in simp)
    then show ?thesis using 1 unfolding b64_char_def by simp
  next
    case 2
    have "unat (of_nat (97 + (i - 26)) :: byte) = 97 + (i - 26)"
      by (rule unat_byte_of_nat) (use 2 in simp)
    then show ?thesis using 2 unfolding b64_char_def by simp
  next
    case 3
    have "unat (of_nat (48 + (i - 52)) :: byte) = 48 + (i - 52)"
      by (rule unat_byte_of_nat) (use 3 in simp)
    then show ?thesis using 3 unfolding b64_char_def by simp
  next
    case 4
    then show ?thesis by (simp add: b64_char_def)
  qed
qed

lemma b64_index_char: "i < 64 \<Longrightarrow> b64_index (b64_char i) = Some i"
  unfolding b64_index_def unat_b64_char by auto

lemma b64_char_neq: "b64_char i \<noteq> 61" "b64_char i \<noteq> 10"
proof -
  have "unat (b64_char i) \<noteq> 61" "unat (b64_char i) \<noteq> 10"
    unfolding unat_b64_char by auto
  then show "b64_char i \<noteq> 61" "b64_char i \<noteq> 10" by auto
qed

lemma b64_char_ascii: "unat (b64_char i) < 128"
  unfolding unat_b64_char by auto

lemma unat_byte_less: "unat (a :: byte) < 256"
  using unsigned_less [of a] by simp

lemma sextets:
  assumes "B < (256::nat)" "C < (256::nat)"
  shows "A div 4 * 4 + (A mod 4 * 16 + B div 16) div 16 = A"
    and "(A mod 4 * 16 + B div 16) mod 16 * 16 + (B mod 16 * 4 + C div 64) div 4 = B"
    and "(B mod 16 * 4 + C div 64) mod 4 * 64 + C mod 64 = C"
    and "(B mod 16 * 4) mod 4 = 0" and "(A mod 4 * 16) mod 16 = 0"
    and "(A mod 4 * 16 + B div 16) mod 16 * 16 + (B mod 16 * 4) div 4 = B"
    and "A div 4 * 4 + (A mod 4 * 16) div 16 = A"
proof -
  have b: "B div 16 < 16" and c: "C div 64 < 4" using assms by simp_all
  have e1: "(A mod 4 * 16 + B div 16) div 16 = A mod 4" using b by simp
  have e2: "(A mod 4 * 16 + B div 16) mod 16 = B div 16" using b by simp
  have e3: "(B mod 16 * 4 + C div 64) div 4 = B mod 16" using c by simp
  have e4: "(B mod 16 * 4 + C div 64) mod 4 = C div 64" using c by simp
  show "A div 4 * 4 + (A mod 4 * 16 + B div 16) div 16 = A" unfolding e1 by simp
  show "(A mod 4 * 16 + B div 16) mod 16 * 16 + (B mod 16 * 4 + C div 64) div 4 = B"
    unfolding e2 e3 by simp
  show "(B mod 16 * 4 + C div 64) mod 4 * 64 + C mod 64 = C" unfolding e4 by simp
  show "(B mod 16 * 4) mod 4 = 0" by simp
  show "(A mod 4 * 16) mod 16 = 0" by simp
  show "(A mod 4 * 16 + B div 16) mod 16 * 16 + (B mod 16 * 4) div 4 = B" unfolding e2 by simp
  show "A div 4 * 4 + (A mod 4 * 16) div 16 = A" by simp
qed

lemma sextet_bounds:
  assumes "A < (256::nat)" "B < (256::nat)" "C < (256::nat)"
  shows "A div 4 < 64" "A mod 4 * 16 + B div 16 < 64" "B mod 16 * 4 + C div 64 < 64" "C mod 64 < 64"
    "B mod 16 * 4 < 64" "A mod 4 * 16 < 64"
proof -
  have b: "B div 16 < 16" and c: "C div 64 < 4" using assms by simp_all
  have a4: "A mod 4 \<le> 3" and b16: "B mod 16 \<le> 15"
    using mod_less_divisor [of 4 A] mod_less_divisor [of 16 B] by simp_all
  show "A div 4 < 64" using assms by simp
  show "C mod 64 < 64" by simp
  from a4 have a: "A mod 4 * 16 \<le> 48" by simp
  from b16 have b': "B mod 16 * 4 \<le> 60" by simp
  show "A mod 4 * 16 + B div 16 < 64" using a b by linarith
  show "B mod 16 * 4 + C div 64 < 64" using b' c by linarith
  show "B mod 16 * 4 < 64" using b' by linarith
  show "A mod 4 * 16 < 64" using a by linarith
qed

lemma b64_decode_encode: "b64_decode (b64_encode bs) = Some bs"
proof (induction bs rule: b64_encode.induct)
  case (1 a b c rest)
  define i j k l where "i = unat a div 4" and "j = unat a mod 4 * 16 + unat b div 16"
    and "k = unat b mod 16 * 4 + unat c div 64" and "l = unat c mod 64"
  note bd = sextet_bounds [OF unat_byte_less [of a] unat_byte_less [of b] unat_byte_less [of c]]
  note sx = sextets [OF unat_byte_less [of b] unat_byte_less [of c]]
  have idx: "b64_index (b64_char i) = Some i" "b64_index (b64_char j) = Some j"
    "b64_index (b64_char k) = Some k" "b64_index (b64_char l) = Some l"
    unfolding i_def j_def k_def l_def by (rule b64_index_char, rule bd)+
  have "i * 4 + j div 16 = unat a" unfolding i_def j_def by (rule sx(1))
  then have b1: "(of_nat (i * 4 + j div 16) :: byte) = a" by (simp del: of_nat_add of_nat_mult)
  have "j mod 16 * 16 + k div 4 = unat b" unfolding j_def k_def by (rule sx(2))
  then have b2: "(of_nat (j mod 16 * 16 + k div 4) :: byte) = b"
    by (simp del: of_nat_add of_nat_mult)
  have "k mod 4 * 64 + l = unat c" unfolding k_def l_def by (rule sx(3))
  then have b3: "(of_nat (k mod 4 * 64 + l) :: byte) = c" by (simp del: of_nat_add of_nat_mult)
  have enc: "b64_encode (a # b # c # rest) =
      b64_char i # b64_char j # b64_char k # b64_char l # b64_encode rest"
    by (simp add: i_def j_def k_def l_def)
  have dec: "b64_decode (b64_char i # b64_char j # b64_char k # b64_char l # b64_encode rest) =
      Some (of_nat (i * 4 + j div 16) # of_nat (j mod 16 * 16 + k div 4)
            # of_nat (k mod 4 * 64 + l) # rest)"
    by (simp add: idx b64_char_neq 1 del: of_nat_add of_nat_mult)
  show ?case unfolding enc dec b1 b2 b3 ..
next
  case (2 a b)
  define i j k where "i = unat a div 4" and "j = unat a mod 4 * 16 + unat b div 16"
    and "k = unat b mod 16 * 4"
  note bd = sextet_bounds [OF unat_byte_less [of a] unat_byte_less [of b] unat_byte_less [of b]]
  note sx = sextets [OF unat_byte_less [of b] unat_byte_less [of b]]
  have idx: "b64_index (b64_char i) = Some i" "b64_index (b64_char j) = Some j"
    "b64_index (b64_char k) = Some k"
    unfolding i_def j_def k_def by (rule b64_index_char, rule bd)+
  have "i * 4 + j div 16 = unat a" unfolding i_def j_def by (rule sx(1))
  then have b1: "(of_nat (i * 4 + j div 16) :: byte) = a" by (simp del: of_nat_add of_nat_mult)
  have "j mod 16 * 16 + k div 4 = unat b" unfolding j_def k_def by (rule sx(6))
  then have b2: "(of_nat (j mod 16 * 16 + k div 4) :: byte) = b"
    by (simp del: of_nat_add of_nat_mult)
  have k4: "k mod 4 = 0" unfolding k_def by (rule sx(4))
  have enc: "b64_encode [a, b] = [b64_char i, b64_char j, b64_char k, 61]"
    by (simp add: i_def j_def k_def)
  have dec: "b64_decode [b64_char i, b64_char j, b64_char k, 61] =
      Some [of_nat (i * 4 + j div 16), of_nat (j mod 16 * 16 + k div 4)]"
    by (simp add: idx b64_char_neq k4 del: of_nat_add of_nat_mult)
  show ?case unfolding enc dec b1 b2 ..
next
  case (3 a)
  define i j where "i = unat a div 4" and "j = unat a mod 4 * 16"
  note bd = sextet_bounds [OF unat_byte_less [of a] unat_byte_less [of a] unat_byte_less [of a]]
  note sx = sextets [OF unat_byte_less [of a] unat_byte_less [of a]]
  have idx: "b64_index (b64_char i) = Some i" "b64_index (b64_char j) = Some j"
    unfolding i_def j_def by (rule b64_index_char, rule bd)+
  have "i * 4 + j div 16 = unat a" unfolding i_def j_def by (rule sx(7))
  then have b1: "(of_nat (i * 4 + j div 16) :: byte) = a" by (simp del: of_nat_add of_nat_mult)
  have j16: "j mod 16 = 0" unfolding j_def by (rule sx(5))
  have enc: "b64_encode [a] = [b64_char i, b64_char j, 61, 61]"
    by (simp add: i_def j_def)
  have dec: "b64_decode [b64_char i, b64_char j, 61, 61] = Some [of_nat (i * 4 + j div 16)]"
    by (simp add: idx j16 del: of_nat_add of_nat_mult)
  show ?case unfolding enc dec b1 ..
next
  case 4
  show ?case by simp
qed

lemma b64_encode_chars: "x \<in> set (b64_encode bs) \<Longrightarrow> x \<noteq> 10 \<and> unat x < 128"
  by (induction bs rule: b64_encode.induct) (auto simp: b64_char_neq b64_char_ascii)

lemma filter_wrap64: "10 \<notin> set s \<Longrightarrow> filter (\<lambda>b. b \<noteq> 10) (wrap64 s) = s"
proof (induction s rule: wrap64.induct)
  case (1 s)
  show ?case
  proof (cases "s = []")
    case True
    then show ?thesis by (simp add: wrap64.simps)
  next
    case False
    have a: "10 \<notin> set (drop 64 s)" using "1.prems" by (auto dest: in_set_dropD)
    have b: "filter (\<lambda>b. b \<noteq> 10) (take 64 s) = take 64 s"
      using "1.prems" by (auto simp: filter_id_conv dest: in_set_takeD)
    from "1.IH" [OF False a] b False show ?thesis
      by (subst wrap64.simps) simp
  qed
qed

lemma set_wrap64: "set (wrap64 s) \<subseteq> insert 10 (set s)"
proof (induction s rule: wrap64.induct)
  case (1 s)
  show ?case
  proof (cases "s = []")
    case True
    then show ?thesis by (simp add: wrap64.simps)
  next
    case False
    from "1.IH" [OF False] have "set (wrap64 (drop 64 s)) \<subseteq> insert 10 (set s)"
      by (auto dest: in_set_dropD)
    then show ?thesis using False
      by (subst wrap64.simps) (auto dest: in_set_takeD)
  qed
qed

lemma strip_prefix_append: "strip_prefix p (p @ x) = Some x"
  by (simp add: strip_prefix_def)

lemma strip_suffix_append: "strip_suffix s (x @ s) = Some x"
  by (simp add: strip_suffix_def strip_prefix_def)

lemma load_spki_pem_spki_pem:
  assumes "dh_p (public_parameters k) < 2 ^ 512" and "dh_g (public_parameters k) < 2 ^ 512"
    and "public_y k < 2 ^ 512"
  shows "load_spki_pem (spki_pem k) = Inr k"
proof -
  have "10 \<notin> set (b64_encode (subject_public_key_info k))"
    using b64_encode_chars by blast
  then have f: "filter (\<lambda>b. b \<noteq> 10) (wrap64 (b64_encode (subject_public_key_info k))) =
      b64_encode (subject_public_key_info k)"
    by (rule filter_wrap64)
  show ?thesis
    unfolding load_spki_pem_def spki_pem_def
    by (simp add: strip_prefix_append strip_suffix_append f b64_decode_encode
        read_subject_public_key_info [OF assms])
qed

lemma spki_pem_ascii: "\<forall>b\<in>set (spki_pem k). unat b < 0x80"
proof
  fix b assume "b \<in> set (spki_pem k)"
  then consider "b \<in> set pem_header" | "b \<in> set pem_footer"
    | "b \<in> set (wrap64 (b64_encode (subject_public_key_info k)))"
    by (auto simp: spki_pem_def)
  then show "unat b < 0x80"
  proof cases
    case 1
    then show ?thesis by (auto simp: pem_header_def)
  next
    case 2
    then show ?thesis by (auto simp: pem_footer_def)
  next
    case 3
    with set_wrap64 have "b = 10 \<or> b \<in> set (b64_encode (subject_public_key_info k))" by blast
    then show ?thesis using b64_encode_chars by auto
  qed
qed

lemma generated_key_size:
  assumes "0 < dh_p G" and "dh_p G < 2 ^ 512" and "dh_g G < 2 ^ 512"
  shows "dh_p (public_parameters (snd (generateKeys G x))) < 2 ^ 512"
    and "dh_g (public_parameters (snd (generateKeys G x))) < 2 ^ 512"
    and "public_y (snd (generateKeys G x)) < 2 ^ 512"
proof -
  have k: "public_parameters (snd (generateKeys G x)) = G"
    "public_y (snd (generateKeys G x)) = dh_g G ^ x mod dh_p G"
    by (simp_all add: generateKeys_def public_key_of_def generate_private_key_def)
  show "dh_p (public_parameters (snd (generateKeys G x))) < 2 ^ 512"
    and "dh_g (public_parameters (snd (generateKeys G x))) < 2 ^ 512"
    unfolding k using assms by simp_all
  have "dh_g G ^ x mod dh_p G < dh_p G" using assms(1) by simp
  then show "public_y (snd (generateKeys G x)) < 2 ^ 512"
    unfolding k using assms(2) by (rule less_trans)
qed

text \<open>
  C7. For a public key \<open>k\<close> that \<^verbatim>\<open>generateKeys\<close> returned under parameters of at most 512
  bits (the size \<^verbatim>\<open>createKeyGenerator\<close> asks for), on a backend with the PEM writer and
  reader of the package: \<^verbatim>\<open>serializePublicKey(k)\<close> returns the PEM text of \<open>k\<close>,
  \<^verbatim>\<open>deserializePublicKey\<close> on that text returns \<open>k\<close> itself, and so with every private key the
  key read back derives what \<open>k\<close> derives.
\<close>

theorem deserializePublicKey_serializePublicKey:
  assumes "public_bytes_pem B = spki_pem" and "load_pem_public_key B = load_spki_pem"
    and "0 < dh_p G" and "dh_p G < 2 ^ 512" and "dh_g G < 2 ^ 512"
  shows "serializePublicKey B (snd (generateKeys G x)) =
        Inr (map unat (spki_pem (snd (generateKeys G x))))
    \<and> and_then (serializePublicKey B (snd (generateKeys G x))) (deserializePublicKey B) =
        Inr (snd (generateKeys G x))
    \<and> (\<forall>myPrivateKey.
          and_then (and_then (serializePublicKey B (snd (generateKeys G x)))
                      (deserializePublicKey B))
            (computeSharedSecret B myPrivateKey) =
          computeSharedSecret B myPrivateKey (snd (generateKeys G x)))"
proof -
  let ?k = "snd (generateKeys G x)"
  have l: "load_pem_public_key B (public_bytes_pem B ?k) = Inr ?k"
    unfolding assms(1,2) by (rule load_spki_pem_spki_pem [OF generated_key_size [OF assms(3-5)]])
  have a: "\<forall>b\<in>set (public_bytes_pem B ?k). unat b < 0x80"
    unfolding assms(1) by (rule spki_pem_ascii)
  from deserialize_serialize [OF l a] show ?thesis by (simp add: assms(1))
qed

theorem deserializePublicKey_serializePublicKey_witness:
  "public_bytes_pem sample_pem_backend = spki_pem
   \<and> load_pem_public_key sample_pem_backend = load_spki_pem
   \<and> 0 < dh_p (createKeyGenerator 1019) \<and> dh_p (createKeyGenerator 1019) < 2 ^ 512
   \<and> dh_g (createKeyGenerator 1019) < 2 ^ 512
   \<and> serializePublicKey sample_pem_backend (snd (generateKeys (createKeyGenerator 1019) 6)) =
       Inr [45, 45, 45, 45, 45, 66, 69, 71, 73, 78, 32, 80, 85, 66, 76, 73, 67, 32, 75, 69, 89, 45,
            45, 45, 45, 45, 10, 77, 66, 119, 119, 70, 65, 89, 74, 75, 111, 90, 73, 104, 118, 99,
            78, 65, 81, 77, 66, 77, 65, 99, 67, 65, 103, 80, 55, 65, 103, 69, 67, 65, 119, 81, 65,
            65, 103, 70, 65, 10, 45, 45, 45, 45, 45, 69, 78, 68, 32, 80, 85, 66, 76, 73, 67, 32,
            75, 69, 89, 45, 45, 45, 45, 45, 10]
   \<and> and_then (serializePublicKey sample_pem_backend (snd (generateKeys (createKeyGenerator 1019) 6)))
         (deserializePublicKey sample_pem_backend) =
       Inr (snd (generateKeys (createKeyGenerator 1019) 6))
   \<and> and_then (and_then (serializePublicKey sample_pem_backend
                          (snd (generateKeys (createKeyGenerator 1019) 6)))
                (deserializePublicKey sample_pem_backend))
         (computeSharedSecret sample_pem_backend (fst (generateKeys (createKeyGenerator 1019) 9))) =
       Inr (0 # 69 # replicate 30 0)"
proof -
  have b: "public_bytes_pem sample_pem_backend = spki_pem"
    "load_pem_public_key sample_pem_backend = load_spki_pem"
    by (simp_all add: sample_pem_backend_def)
  have g: "0 < dh_p (createKeyGenerator 1019)" "dh_p (createKeyGenerator 1019) < 2 ^ 512"
    "dh_g (createKeyGenerator 1019) < 2 ^ 512"
    by (simp_all add: createKeyGenerator_def)
  have p: "map unat (spki_pem (snd (generateKeys (createKeyGenerator 1019) 6))) =
       [45, 45, 45, 45, 45, 66, 69, 71, 73, 78, 32, 80, 85, 66, 76, 73, 67, 32, 75, 69, 89, 45,
            45, 45, 45, 45, 10, 77, 66, 119, 119, 70, 65, 89, 74, 75, 111, 90, 73, 104, 118, 99,
            78, 65, 81, 77, 66, 77, 65, 99, 67, 65, 103, 80, 55, 65, 103, 69, 67, 65, 119, 81, 65,
            65, 103, 70, 65, 10, 45, 45, 45, 45, 45, 69, 78, 68, 32, 80, 85, 66, 76, 73, 67, 32,
            75, 69, 89, 45, 45, 45, 45, 45, 10]"
    by (simp add: run_simps spki_pem_def subject_public_key_info_def der_tlv_def der_integer_def
        integer_content_def der_length_def dh_oid_def b64_char_def pem_header_def pem_footer_def
        wrap64.simps)
  have c: "computeSharedSecret sample_pem_backend (fst (generateKeys (createKeyGenerator 1019) 9))
        (snd (generateKeys (createKeyGenerator 1019) 6)) = Inr (0 # 69 # replicate 30 0)"
    by (simp add: run_simps sample_pem_backend_def)
  note t = deserializePublicKey_serializePublicKey [OF b g, of 6]
  have s: "serializePublicKey sample_pem_backend (snd (generateKeys (createKeyGenerator 1019) 6)) =
       Inr [45, 45, 45, 45, 45, 66, 69, 71, 73, 78, 32, 80, 85, 66, 76, 73, 67, 32, 75, 69, 89, 45,
            45, 45, 45, 45, 10, 77, 66, 119, 119, 70, 65, 89, 74, 75, 111, 90, 73, 104, 118, 99,
            78, 65, 81, 77, 66, 77, 65, 99, 67, 65, 103, 80, 55, 65, 103, 69, 67, 65, 119, 81, 65,
            65, 103, 70, 65, 10, 45, 45, 45, 45, 45, 69, 78, 68, 32, 80, 85, 66, 76, 73, 67, 32,
            75, 69, 89, 45, 45, 45, 45, 45, 10]"
    using t [THEN conjunct1] by (simp only: p)
  have d: "and_then (and_then (serializePublicKey sample_pem_backend
                          (snd (generateKeys (createKeyGenerator 1019) 6)))
                (deserializePublicKey sample_pem_backend))
         (computeSharedSecret sample_pem_backend (fst (generateKeys (createKeyGenerator 1019) 9))) =
       Inr (0 # 69 # replicate 30 0)"
    by (simp only: t [THEN conjunct2, THEN conjunct2, rule_format] c)
  from b g s t [THEN conjunct2, THEN conjunct1] d show ?thesis by blast
qed

subsection \<open>Decoding an onion layer\<close>

text \<open>
  C9. \<^verbatim>\<open>decryptOnionLayer\<close> never returns decoded fields. \<^verbatim>\<open>decryptMessage\<close> hands back a
  \<^verbatim>\<open>str\<close>; the next call, \<^verbatim>\<open>.decode()\<close> on that \<^verbatim>\<open>str\<close>, raises \<^verbatim>\<open>AttributeError\<close> before the
  server type is looked at. So for every backend, private key, layer and server type the
  result is an exception: that of an earlier step, or this one.
\<close>

theorem decryptOnionLayer_never_returns:
  "(\<forall>r. decryptOnionLayer B serverPrivateKey msgPayload serverType \<noteq> Inr r)
   \<and> decryptOnionLayer B serverPrivateKey msgPayload serverType =
     and_then (unpack2 (split_max hash_sign 1 msgPayload)) (\<lambda>(ppk_text, payload).
     and_then (deserializePublicKey B ppk_text) (\<lambda>ppk.
     and_then (py_encode (PyStr payload)) (\<lambda>payload_bytes.
     and_then (computeSharedSecret B serverPrivateKey ppk) (\<lambda>sharedSecret.
     and_then (decryptMessage B sharedSecret payload_bytes) (\<lambda>plaintext.
     Inl AttributeError)))))"
  by (auto simp: decryptOnionLayer_def and_then_Inr_iff)

theorem decryptOnionLayer_never_returns_witness:
  "decryptOnionLayer sample_backend (fst (generateKeys (createKeyGenerator 1019) 9))
     ([49, 48, 49, 57, 44, 50, 44, 54, 52] @ [35]
      @ [55, 102, 56, 35, 104, 101, 108, 108, 111, 7, 7, 7, 7, 7, 7, 7]) 0
   = Inl AttributeError
   \<and> decryptOnionLayer sample_backend (fst (generateKeys (createKeyGenerator 1019) 9))
     ([49, 48, 49, 57, 44, 50, 44, 54, 52] @ [35]
      @ [55, 102, 56, 35, 104, 101, 108, 108, 111, 7, 7, 7, 7, 7, 7, 7]) 0
   \<noteq> Inr ([], FrontOrMiddle (snd (generateKeys (createKeyGenerator 1019) 6))
       [55, 35, 56, 35, 104, 101, 108, 108, 111])"
  using decryptOnionLayer_never_returns [of sample_backend
      "fst (generateKeys (createKeyGenerator 1019) 9)"
      "[49, 48, 49, 57, 44, 50, 44, 54, 52] @ [35]
        @ [55, 102, 56, 35, 104, 101, 108, 108, 111, 7, 7, 7, 7, 7, 7, 7]" 0]
  by (simp add: run_simps)

lemma takeWhile_sep: "sep \<notin> set a \<Longrightarrow> takeWhile (\<lambda>c. c \<noteq> sep) (a @ sep # b) = a"
  by (induction a) auto

lemma dropWhile_sep: "sep \<notin> set a \<Longrightarrow> dropWhile (\<lambda>c. c \<noteq> sep) (a @ sep # b) = sep # b"
  by (induction a) auto

lemma split_max_1_append:
  "sep \<notin> set a \<Longrightarrow> split_max sep 1 (a @ [sep] @ b) = [a, b]"
  by (simp add: split_max_1 takeWhile_sep dropWhile_sep)

lemma split_max_2_append:
  assumes "sep \<notin> set a" "sep \<in> set rest"
  shows "unpack3 (split_max sep 2 (a @ [sep] @ rest)) =
      Inr (a, takeWhile (\<lambda>c. c \<noteq> sep) rest, tl (dropWhile (\<lambda>c. c \<noteq> sep) rest))"
    and "takeWhile (\<lambda>c. c \<noteq> sep) rest @ [sep] @ tl (dropWhile (\<lambda>c. c \<noteq> sep) rest) = rest"
proof -
  show "unpack3 (split_max sep 2 (a @ [sep] @ rest)) =
      Inr (a, takeWhile (\<lambda>c. c \<noteq> sep) rest, tl (dropWhile (\<lambda>c. c \<noteq> sep) rest))"
    using assms by (simp add: split_max_2 split_max_1 takeWhile_sep dropWhile_sep)
  from assms(2) have "dropWhile (\<lambda>c. c \<noteq> sep) rest \<noteq> []" by simp
  moreover have "hd (dropWhile (\<lambda>c. c \<noteq> sep) rest) = sep"
    using hd_dropWhile [of "\<lambda>c. c \<noteq> sep" rest] calculation by simp
  ultimately have "dropWhile (\<lambda>c. c \<noteq> sep) rest = sep # tl (dropWhile (\<lambda>c. c \<noteq> sep) rest)"
    by (cases "dropWhile (\<lambda>c. c \<noteq> sep) rest") simp_all
  then have "takeWhile (\<lambda>c. c \<noteq> sep) rest @ [sep] @ tl (dropWhile (\<lambda>c. c \<noteq> sep) rest) =
      takeWhile (\<lambda>c. c \<noteq> sep) rest @ dropWhile (\<lambda>c. c \<noteq> sep) rest" by simp
  then show "takeWhile (\<lambda>c. c \<noteq> sep) rest @ [sep] @ tl (dropWhile (\<lambda>c. c \<noteq> sep) rest) = rest"
    by simp
qed

lemma computeSharedSecret_commute:
  "computeSharedSecret B (fst (generateKeys G a)) (snd (generateKeys G b)) =
   computeSharedSecret B (fst (generateKeys G b)) (snd (generateKeys G a))"
  unfolding computeSharedSecret_def generateKeys_def fst_conv snd_conv
  by (simp only: exchange_value mult.commute [of a b])

lemma decryptOnionLayer_reaches_decode:
  assumes "unpack2 (split_max hash_sign 1 msgPayload) = Inr (ppk_text, payload)"
    and "deserializePublicKey B ppk_text = Inr ppk"
    and "py_encode (PyStr payload) = Inr payload_bytes"
    and "computeSharedSecret B serverPrivateKey ppk = Inr sharedSecret"
    and "decryptMessage B sharedSecret payload_bytes = Inr plaintext"
  shows "decryptOnionLayer B serverPrivateKey msgPayload serverType = Inl AttributeError"
  using assms by (simp add: decryptOnionLayer_def)

text \<open>
  C4 (the code raises another error). For a server type outside 0, 1 and 2, on a layer
  that splits in two, whose key text reads as a key and whose payload decrypts,
  \<^verbatim>\<open>decryptOnionLayer\<close> raises \<^verbatim>\<open>AttributeError\<close> at \<^verbatim>\<open>.decode()\<close> on line 107, as it does for
  every server type: the failure is not an invalid-role error, and the server type is
  never looked at. The \<^verbatim>\<open>else\<close> branch that names the invalid role is not reached; it
  would print \<^verbatim>\<open>ERROR decryptOnionLayer: serverType must be in {0,1,2}\<close> and raise nothing.
\<close>

theorem invalid_role_raises_AttributeError:
  assumes "unpack2 (split_max hash_sign 1 msgPayload) = Inr (ppk_text, payload)"
    and "deserializePublicKey B ppk_text = Inr ppk"
    and "py_encode (PyStr payload) = Inr payload_bytes"
    and "computeSharedSecret B serverPrivateKey ppk = Inr sharedSecret"
    and "decryptMessage B sharedSecret payload_bytes = Inr plaintext"
    and "serverType \<noteq> 0" and "serverType \<noteq> 1" and "serverType \<noteq> 2"
  shows "decryptOnionLayer B serverPrivateKey msgPayload serverType = Inl AttributeError
    \<and> fields_by_serverType ppk plaintext serverType = Inr ([role_error_line], PyNone)"
proof
  show "decryptOnionLayer B serverPrivateKey msgPayload serverType = Inl AttributeError"
    by (rule decryptOnionLayer_reaches_decode [OF assms(1-5)])
  show "fields_by_serverType ppk plaintext serverType = Inr ([role_error_line], PyNone)"
    using assms(6-8) by (simp add: fields_by_serverType_def)
qed

text \<open>
  C1 (the code breaks the round trip). Take two key pairs under the same parameters and a
  layer that \<^verbatim>\<open>encryptOnionLayer(priv_A, pub_B, payload)\<close> returned, prefixed with the
  serialized \<open>pub_A\<close> and \<^verbatim>\<open>#\<close>. On a backend where AES decryption inverts encryption and
  the PEM text has no \<^verbatim>\<open>#\<close> and reads back as \<open>pub_A\<close>, \<^verbatim>\<open>decryptOnionLayer\<close> with
  \<open>priv_B\<close> splits the layer, recovers \<open>pub_A\<close>, derives the same secret and decrypts the
  payload, and then raises \<^verbatim>\<open>AttributeError\<close> at \<^verbatim>\<open>.decode()\<close> on the decrypted \<^verbatim>\<open>str\<close>, for
  every server type: neither the payload nor \<open>pub_A\<close> is returned.
\<close>

theorem onion_round_trip_raises_AttributeError:
  assumes sec: "computeSharedSecret B (fst (generateKeys G a)) (snd (generateKeys G b)) = Inr s"
    and blk: "inverse_on_blocks (aes_encrypt_block B s) (aes_decrypt_block B s)"
    and enc: "encryptOnionLayer B (fst (generateKeys G a)) (snd (generateKeys G b)) payload = Inr layer"
    and pem: "serializePublicKey B (snd (generateKeys G a)) = Inr pem"
    and nohash: "hash_sign \<notin> set pem"
    and load: "deserializePublicKey B pem = Inr (snd (generateKeys G a))"
  shows "decryptOnionLayer B (fst (generateKeys G b)) (pem @ [hash_sign] @ layer) serverType =
      Inl AttributeError"
proof -
  from enc sec obtain c where em: "encryptMessage B s payload = Inr c"
    and dl: "utf8_decode c = Inr layer"
    by (auto simp: encryptOnionLayer_def and_then_Inr_iff)
  from em obtain data where data: "utf8_encode payload = Inr data"
    and len: "length s = 16 \<or> length s = 24 \<or> length s = 32"
    by (auto simp: encryptMessage_def and_then_Inr_iff createCipher_def split: if_splits)
  from decryptMessage_encryptMessage [OF blk len data] em
  have dm: "decryptMessage B s c = Inr payload" by simp
  have el: "py_encode (PyStr layer) = Inr c" using utf8_encode_decode [OF dl] by simp
  have sp: "unpack2 (split_max hash_sign 1 (pem @ [hash_sign] @ layer)) = Inr (pem, layer)"
    using split_max_1_append [OF nohash, of layer] by simp
  have sec': "computeSharedSecret B (fst (generateKeys G b)) (snd (generateKeys G a)) = Inr s"
    using sec computeSharedSecret_commute [of B G a b] by simp
  show ?thesis by (rule decryptOnionLayer_reaches_decode [OF sp load el sec' dm])
qed

text \<open>
  C5 (the code never returns the SPREADING fields). When the layer decrypts to a plaintext
  \<^verbatim>\<open>DDS#rest\<close> whose first field has no \<^verbatim>\<open>#\<close> and parses as the integer \<open>n\<close>, and \<open>rest\<close> has
  a \<^verbatim>\<open>#\<close>, the branch for server type 1 computes the peer key, \<open>n\<close> and all of \<open>rest\<close> (further
  \<^verbatim>\<open>#\<close> included) as the forward payload; but \<^verbatim>\<open>decryptOnionLayer\<close> does not reach the
  branch: it raises \<^verbatim>\<open>AttributeError\<close>.
\<close>

theorem spreading_fields_never_returned:
  assumes "unpack2 (split_max hash_sign 1 msgPayload) = Inr (ppk_text, payload)"
    and "deserializePublicKey B ppk_text = Inr ppk"
    and "py_encode (PyStr payload) = Inr payload_bytes"
    and "computeSharedSecret B serverPrivateKey ppk = Inr sharedSecret"
    and "decryptMessage B sharedSecret payload_bytes = Inr (DDS @ [hash_sign] @ rest)"
    and "hash_sign \<notin> set DDS" and "hash_sign \<in> set rest" and "py_int DDS = Inr n"
  shows "fields_by_serverType ppk (DDS @ [hash_sign] @ rest) 1 = Inr ([], Spreading ppk n rest)
    \<and> decryptOnionLayer B serverPrivateKey msgPayload 1 = Inl AttributeError"
proof
  show "fields_by_serverType ppk (DDS @ [hash_sign] @ rest) 1 = Inr ([], Spreading ppk n rest)"
    using split_max_2_append [OF assms(6,7)] assms(8)
    by (simp add: fields_by_serverType_def)
  show "decryptOnionLayer B serverPrivateKey msgPayload 1 = Inl AttributeError"
    by (rule decryptOnionLayer_reaches_decode [OF assms(1-5)])
qed

lemma unpack3_length: "length xs \<noteq> 3 \<Longrightarrow> unpack3 xs = Inl ValueError"
  by (cases xs rule: unpack3.cases) simp_all

lemma py_int_error: "py_int s = Inl e \<Longrightarrow> e = ValueError"
  by (auto simp: py_int_def split: list.splits if_splits option.splits)

text \<open>
  C6 (the code raises another error). For server types 1 and 2, when the decrypted
  plaintext does not split into three fields, or a numeric field does not parse, the
  branch of the server type would raise \<^verbatim>\<open>ValueError\<close>; \<^verbatim>\<open>decryptOnionLayer\<close> raises
  \<^verbatim>\<open>AttributeError\<close> before it gets there.
\<close>

theorem malformed_payload_raises_AttributeError:
  assumes "unpack2 (split_max hash_sign 1 msgPayload) = Inr (ppk_text, payload)"
    and "deserializePublicKey B ppk_text = Inr ppk"
    and "py_encode (PyStr payload) = Inr payload_bytes"
    and "computeSharedSecret B serverPrivateKey ppk = Inr sharedSecret"
    and "decryptMessage B sharedSecret payload_bytes = Inr plaintext"
    and "serverType = 1 \<or> serverType = 2"
    and "length (split_max hash_sign 2 plaintext) \<noteq> 3
       \<or> py_int (split_max hash_sign 2 plaintext ! 0) = Inl ValueError
       \<or> (serverType = 2 \<and> py_int (split_max hash_sign 2 plaintext ! 1) = Inl ValueError)"
  shows "fields_by_serverType ppk plaintext serverType = Inl ValueError
    \<and> decryptOnionLayer B serverPrivateKey msgPayload serverType = Inl AttributeError"
proof
  show "decryptOnionLayer B serverPrivateKey msgPayload serverType = Inl AttributeError"
    by (rule decryptOnionLayer_reaches_decode [OF assms(1-5)])
  show "fields_by_serverType ppk plaintext serverType = Inl ValueError"
  proof (cases "length (split_max hash_sign 2 plaintext) = 3")
    case False
    then show ?thesis using assms(6)
      by (auto simp: fields_by_serverType_def unpack3_length)
  next
    case True
    then obtain f1 f2 f3 where f: "split_max hash_sign 2 plaintext = [f1, f2, f3]"
      by (auto simp: length_Suc_conv numeral_3_eq_3)
    from assms(7) True f have bad: "py_int f1 = Inl ValueError \<or> (serverType = 2 \<and> py_int f2 = Inl ValueError)"
      by simp
    show ?thesis
    proof (cases "py_int f1")
      case (Inl e)
      then have "py_int f1 = Inl ValueError" using py_int_error by blast
      then show ?thesis using assms(6) by (auto simp: fields_by_serverType_def f)
    next
      case (Inr v)
      with bad have "serverType = 2" "py_int f2 = Inl ValueError" by simp_all
      then show ?thesis using Inr by (simp add: fields_by_serverType_def f)
    qed
  qed
qed


subsection \<open>Sample runs\<close>

lemma sample_secret:
  "computeSharedSecret sample_backend (fst (generateKeys (createKeyGenerator 1019) 6)) (snd (generateKeys (createKeyGenerator 1019) 9)) = Inr (0 # 69 # replicate 30 0)"
  "computeSharedSecret sample_backend (fst (generateKeys (createKeyGenerator 1019) 9)) (snd (generateKeys (createKeyGenerator 1019) 6)) = Inr (0 # 69 # replicate 30 0)"
  by (simp_all add: run_simps)

lemma sample_serialize:
  "serializePublicKey sample_backend (snd (generateKeys (createKeyGenerator 1019) 6)) = Inr [49, 48, 49, 57, 44, 50, 44, 54, 52]"
  "deserializePublicKey sample_backend [49, 48, 49, 57, 44, 50, 44, 54, 52] = Inr (snd (generateKeys (createKeyGenerator 1019) 6))"
  by (simp_all add: run_simps)

lemma sample_layers:
  "encryptOnionLayer sample_backend (fst (generateKeys (createKeyGenerator 1019) 6)) (snd (generateKeys (createKeyGenerator 1019) 9)) [55, 35, 56, 35, 104, 101, 108, 108, 111] = Inr [55, 102, 56, 35, 104, 101, 108, 108, 111, 7, 7, 7, 7, 7, 7, 7]"
  "encryptOnionLayer sample_backend (fst (generateKeys (createKeyGenerator 1019) 6)) (snd (generateKeys (createKeyGenerator 1019) 9)) [104, 101, 108, 108, 111] = Inr [104, 32, 108, 108, 111, 11, 11, 11, 11, 11, 11, 11, 11, 11, 11, 11]"
  by (simp_all add: run_simps)

lemma sample_split:
  "unpack2 (split_max hash_sign 1 ([49, 48, 49, 57, 44, 50, 44, 54, 52] @ [hash_sign] @ [55, 102, 56, 35, 104, 101, 108, 108, 111, 7, 7, 7, 7, 7, 7, 7])) = Inr ([49, 48, 49, 57, 44, 50, 44, 54, 52], [55, 102, 56, 35, 104, 101, 108, 108, 111, 7, 7, 7, 7, 7, 7, 7])"
  "unpack2 (split_max hash_sign 1 ([49, 48, 49, 57, 44, 50, 44, 54, 52] @ [hash_sign] @ [104, 32, 108, 108, 111, 11, 11, 11, 11, 11, 11, 11, 11, 11, 11, 11])) = Inr ([49, 48, 49, 57, 44, 50, 44, 54, 52], [104, 32, 108, 108, 111, 11, 11, 11, 11, 11, 11, 11, 11, 11, 11, 11])"
  by (simp_all add: run_simps)

lemma sample_payload_bytes:
  "py_encode (PyStr [55, 102, 56, 35, 104, 101, 108, 108, 111, 7, 7, 7, 7, 7, 7, 7]) = Inr [55, 102, 56, 35, 104, 101, 108, 108, 111, 7, 7, 7, 7, 7, 7, 7]"
  "py_encode (PyStr [104, 32, 108, 108, 111, 11, 11, 11, 11, 11, 11, 11, 11, 11, 11, 11]) = Inr [104, 32, 108, 108, 111, 11, 11, 11, 11, 11, 11, 11, 11, 11, 11, 11]"
  by (simp_all add: run_simps)

lemma sample_decryptMessage:
  "decryptMessage sample_backend (0 # 69 # replicate 30 0) [55, 102, 56, 35, 104, 101, 108, 108, 111, 7, 7, 7, 7, 7, 7, 7] = Inr [55, 35, 56, 35, 104, 101, 108, 108, 111]"
  "decryptMessage sample_backend (0 # 69 # replicate 30 0) [104, 32, 108, 108, 111, 11, 11, 11, 11, 11, 11, 11, 11, 11, 11, 11] = Inr [104, 101, 108, 108, 111]"
  by (simp_all add: run_simps)

theorem invalid_role_raises_AttributeError_witness:
  "unpack2 (split_max hash_sign 1 ([49, 48, 49, 57, 44, 50, 44, 54, 52] @ [hash_sign] @ [55, 102, 56, 35, 104, 101, 108, 108, 111, 7, 7, 7, 7, 7, 7, 7])) = Inr ([49, 48, 49, 57, 44, 50, 44, 54, 52], [55, 102, 56, 35, 104, 101, 108, 108, 111, 7, 7, 7, 7, 7, 7, 7])
   \<and> deserializePublicKey sample_backend [49, 48, 49, 57, 44, 50, 44, 54, 52] = Inr (snd (generateKeys (createKeyGenerator 1019) 6))
   \<and> py_encode (PyStr [55, 102, 56, 35, 104, 101, 108, 108, 111, 7, 7, 7, 7, 7, 7, 7]) = Inr [55, 102, 56, 35, 104, 101, 108, 108, 111, 7, 7, 7, 7, 7, 7, 7]
   \<and> computeSharedSecret sample_backend (fst (generateKeys (createKeyGenerator 1019) 9)) (snd (generateKeys (createKeyGenerator 1019) 6)) = Inr (0 # 69 # replicate 30 0)
   \<and> decryptMessage sample_backend (0 # 69 # replicate 30 0) [55, 102, 56, 35, 104, 101, 108, 108, 111, 7, 7, 7, 7, 7, 7, 7] = Inr [55, 35, 56, 35, 104, 101, 108, 108, 111]
   \<and> (3::int) \<noteq> 0 \<and> (3::int) \<noteq> 1 \<and> (3::int) \<noteq> 2
   \<and> decryptOnionLayer sample_backend (fst (generateKeys (createKeyGenerator 1019) 9)) ([49, 48, 49, 57, 44, 50, 44, 54, 52] @ [hash_sign] @ [55, 102, 56, 35, 104, 101, 108, 108, 111, 7, 7, 7, 7, 7, 7, 7]) 3 = Inl AttributeError
   \<and> fields_by_serverType (snd (generateKeys (createKeyGenerator 1019) 6)) [55, 35, 56, 35, 104, 101, 108, 108, 111] 3 =
       Inr ([''ERROR decryptOnionLayer: serverType must be in {0,1,2}''], PyNone)"
proof -
  have r: "(3::int) \<noteq> 0" "(3::int) \<noteq> 1" "(3::int) \<noteq> 2" by simp_all
  from invalid_role_raises_AttributeError [OF sample_split(1) sample_serialize(2)
      sample_payload_bytes(1) sample_secret(2) sample_decryptMessage(1) r]
    sample_split(1) sample_serialize(2) sample_payload_bytes(1) sample_secret(2)
    sample_decryptMessage(1)
  show ?thesis by (simp add: role_error_line_def)
qed

theorem onion_round_trip_raises_AttributeError_witness:
  "computeSharedSecret sample_backend (fst (generateKeys (createKeyGenerator 1019) 6)) (snd (generateKeys (createKeyGenerator 1019) 9)) = Inr (0 # 69 # replicate 30 0)
   \<and> inverse_on_blocks (aes_encrypt_block sample_backend (0 # 69 # replicate 30 0)) (aes_decrypt_block sample_backend (0 # 69 # replicate 30 0))
   \<and> encryptOnionLayer sample_backend (fst (generateKeys (createKeyGenerator 1019) 6)) (snd (generateKeys (createKeyGenerator 1019) 9)) [55, 35, 56, 35, 104, 101, 108, 108, 111] = Inr [55, 102, 56, 35, 104, 101, 108, 108, 111, 7, 7, 7, 7, 7, 7, 7]
   \<and> serializePublicKey sample_backend (snd (generateKeys (createKeyGenerator 1019) 6)) = Inr [49, 48, 49, 57, 44, 50, 44, 54, 52]
   \<and> hash_sign \<notin> set [49, 48, 49, 57, 44, 50, 44, 54, 52]
   \<and> deserializePublicKey sample_backend [49, 48, 49, 57, 44, 50, 44, 54, 52] = Inr (snd (generateKeys (createKeyGenerator 1019) 6))
   \<and> decryptOnionLayer sample_backend (fst (generateKeys (createKeyGenerator 1019) 9)) ([49, 48, 49, 57, 44, 50, 44, 54, 52] @ [hash_sign] @ [55, 102, 56, 35, 104, 101, 108, 108, 111, 7, 7, 7, 7, 7, 7, 7]) 0 = Inl AttributeError"
proof -
  have blk: "inverse_on_blocks (aes_encrypt_block sample_backend (0 # 69 # replicate 30 0)) (aes_decrypt_block sample_backend (0 # 69 # replicate 30 0))"
    by (rule sample_backend_blocks) simp
  have nohash: "hash_sign \<notin> set [49, 48, 49, 57, 44, 50, 44, 54, 52]" by (simp add: hash_sign_def)
  from onion_round_trip_raises_AttributeError [OF sample_secret(1) blk sample_layers(1)
      sample_serialize(1) nohash sample_serialize(2), of 0]
    sample_secret(1) blk sample_layers(1) sample_serialize nohash
  show ?thesis by blast
qed

theorem spreading_fields_never_returned_witness:
  "unpack2 (split_max hash_sign 1 ([49, 48, 49, 57, 44, 50, 44, 54, 52] @ [hash_sign] @ [55, 102, 56, 35, 104, 101, 108, 108, 111, 7, 7, 7, 7, 7, 7, 7])) = Inr ([49, 48, 49, 57, 44, 50, 44, 54, 52], [55, 102, 56, 35, 104, 101, 108, 108, 111, 7, 7, 7, 7, 7, 7, 7])
   \<and> deserializePublicKey sample_backend [49, 48, 49, 57, 44, 50, 44, 54, 52] = Inr (snd (generateKeys (createKeyGenerator 1019) 6))
   \<and> py_encode (PyStr [55, 102, 56, 35, 104, 101, 108, 108, 111, 7, 7, 7, 7, 7, 7, 7]) = Inr [55, 102, 56, 35, 104, 101, 108, 108, 111, 7, 7, 7, 7, 7, 7, 7]
   \<and> computeSharedSecret sample_backend (fst (generateKeys (createKeyGenerator 1019) 9)) (snd (generateKeys (createKeyGenerator 1019) 6)) = Inr (0 # 69 # replicate 30 0)
   \<and> decryptMessage sample_backend (0 # 69 # replicate 30 0) [55, 102, 56, 35, 104, 101, 108, 108, 111, 7, 7, 7, 7, 7, 7, 7] = Inr ([55] @ [hash_sign] @ [56, 35, 104, 101, 108, 108, 111])
   \<and> hash_sign \<notin> set [55] \<and> hash_sign \<in> set [56, 35, 104, 101, 108, 108, 111]
   \<and> py_int [55] = Inr 7
   \<and> fields_by_serverType (snd (generateKeys (createKeyGenerator 1019) 6)) ([55] @ [hash_sign] @ [56, 35, 104, 101, 108, 108, 111]) 1 =
       Inr ([], Spreading (snd (generateKeys (createKeyGenerator 1019) 6)) 7 [56, 35, 104, 101, 108, 108, 111])
   \<and> decryptOnionLayer sample_backend (fst (generateKeys (createKeyGenerator 1019) 9)) ([49, 48, 49, 57, 44, 50, 44, 54, 52] @ [hash_sign] @ [55, 102, 56, 35, 104, 101, 108, 108, 111, 7, 7, 7, 7, 7, 7, 7]) 1 = Inl AttributeError"
proof -
  have dm: "decryptMessage sample_backend (0 # 69 # replicate 30 0) [55, 102, 56, 35, 104, 101, 108, 108, 111, 7, 7, 7, 7, 7, 7, 7] = Inr ([55] @ [hash_sign] @ [56, 35, 104, 101, 108, 108, 111])"
    using sample_decryptMessage(1) by (simp add: hash_sign_def)
  have h1: "hash_sign \<notin> set [55]" and h2: "hash_sign \<in> set [56, 35, 104, 101, 108, 108, 111]"
    by (simp_all add: hash_sign_def)
  have i: "py_int [55] = Inr 7"
    by (simp add: py_int_def py_strip_def int_whitespace_def unsigned_value_def max_str_digits_def
        digit_value_def decimal_zeros_def)
  from spreading_fields_never_returned [OF sample_split(1) sample_serialize(2)
      sample_payload_bytes(1) sample_secret(2) dm h1 h2 i]
    sample_split(1) sample_serialize(2) sample_payload_bytes(1) sample_secret(2) dm h1 h2 i
  show ?thesis by blast
qed

theorem malformed_payload_raises_AttributeError_witness:
  "unpack2 (split_max hash_sign 1 ([49, 48, 49, 57, 44, 50, 44, 54, 52] @ [hash_sign] @ [104, 32, 108, 108, 111, 11, 11, 11, 11, 11, 11, 11, 11, 11, 11, 11])) = Inr ([49, 48, 49, 57, 44, 50, 44, 54, 52], [104, 32, 108, 108, 111, 11, 11, 11, 11, 11, 11, 11, 11, 11, 11, 11])
   \<and> deserializePublicKey sample_backend [49, 48, 49, 57, 44, 50, 44, 54, 52] = Inr (snd (generateKeys (createKeyGenerator 1019) 6))
   \<and> py_encode (PyStr [104, 32, 108, 108, 111, 11, 11, 11, 11, 11, 11, 11, 11, 11, 11, 11]) = Inr [104, 32, 108, 108, 111, 11, 11, 11, 11, 11, 11, 11, 11, 11, 11, 11]
   \<and> computeSharedSecret sample_backend (fst (generateKeys (createKeyGenerator 1019) 9)) (snd (generateKeys (createKeyGenerator 1019) 6)) = Inr (0 # 69 # replicate 30 0)
   \<and> decryptMessage sample_backend (0 # 69 # replicate 30 0) [104, 32, 108, 108, 111, 11, 11, 11, 11, 11, 11, 11, 11, 11, 11, 11] = Inr [104, 101, 108, 108, 111]
   \<and> length (split_max hash_sign 2 [104, 101, 108, 108, 111]) = 1
   \<and> fields_by_serverType (snd (generateKeys (createKeyGenerator 1019) 6)) [104, 101, 108, 108, 111] 1 = Inl ValueError
   \<and> decryptOnionLayer sample_backend (fst (generateKeys (createKeyGenerator 1019) 9)) ([49, 48, 49, 57, 44, 50, 44, 54, 52] @ [hash_sign] @ [104, 32, 108, 108, 111, 11, 11, 11, 11, 11, 11, 11, 11, 11, 11, 11]) 1 = Inl AttributeError"
proof -
  have l: "length (split_max hash_sign 2 [104, 101, 108, 108, 111]) = 1"
    by (simp add: split_max_2 hash_sign_def)
  then have m: "length (split_max hash_sign 2 [104, 101, 108, 108, 111]) \<noteq> 3
       \<or> py_int (split_max hash_sign 2 [104, 101, 108, 108, 111] ! 0) = Inl ValueError
       \<or> ((1::int) = 2 \<and> py_int (split_max hash_sign 2 [104, 101, 108, 108, 111] ! 1) = Inl ValueError)"
    by simp
  have r: "(1::int) = 1 \<or> (1::int) = 2" by simp
  from malformed_payload_raises_AttributeError [OF sample_split(2) sample_serialize(2)
      sample_payload_bytes(2) sample_secret(2) sample_decryptMessage(2) r m]
    sample_split(2) sample_serialize(2) sample_payload_bytes(2) sample_secret(2)
    sample_decryptMessage(2) l
  show ?thesis by blast
qed

end
